theory Spec2Isabelle
  imports Complex_Main
begin

section \<open>Machine integers of the C source\<close>

text \<open>
  The kernel is compiled for a 32-bit x86 target: \<open>int\<close>, \<open>tid_t\<close> and \<open>fixed_point\<close>
  (\<open>int32_t\<close>) are 32-bit two's complement values, \<open>int64_t\<close> is 64 bits wide.  Values are
  modelled as \<open>int\<close>; every arithmetic result is brought back into the range of its C type
  by \<open>wrap32\<close> or \<open>wrap64\<close> (two's complement wrap-around, which is what the target
  machine computes).  C division truncates towards zero, HOL's \<open>div\<close> rounds down, so the
  C operators \<open>/\<close> and \<open>%\<close> are \<open>c_div\<close> and \<open>c_mod\<close>.
\<close>

definition wrap32 :: "int \<Rightarrow> int" where
  "wrap32 x = (x + 2147483648) mod 4294967296 - 2147483648"

definition wrap64 :: "int \<Rightarrow> int" where
  "wrap64 x = (x + 9223372036854775808) mod 18446744073709551616 - 9223372036854775808"

definition c_div :: "int \<Rightarrow> int \<Rightarrow> int" where
  "c_div a b = (if (a < 0) = (b < 0) then \<bar>a\<bar> div \<bar>b\<bar> else - (\<bar>a\<bar> div \<bar>b\<bar>))"

definition c_mod :: "int \<Rightarrow> int \<Rightarrow> int" where
  "c_mod a b = a - b * c_div a b"

section \<open>fixed\_point.h: 17.14 fixed-point arithmetic\<close>

text \<open>\<open>#define Q 14\<close> and \<open>#define F (1 << Q)\<close>.\<close>

definition Q :: nat where
  "Q = 14"

definition F :: int where
  "F = 2 ^ Q"

text \<open>
  The macros are untyped; they are applied to \<open>int\<close> and \<open>fixed_point\<close> operands, so
  their arithmetic is 32 bits wide, except where the macro casts to \<open>int64_t\<close>.
\<close>

definition convert_to_fixed_point :: "int \<Rightarrow> int" where
  "convert_to_fixed_point n = wrap32 (n * F)"

definition convert_to_int_round_down :: "int \<Rightarrow> int" where
  "convert_to_int_round_down x = c_div x F"

definition convert_to_int_round_nearest :: "int \<Rightarrow> int" where
  "convert_to_int_round_nearest x =
     (if x \<ge> 0 then c_div (wrap32 (x + c_div F 2)) F
      else c_div (wrap32 (x - c_div F 2)) F)"

definition add_fixed_to_fixed :: "int \<Rightarrow> int \<Rightarrow> int" where
  "add_fixed_to_fixed x y = wrap32 (x + y)"

definition add_fixed_to_int :: "int \<Rightarrow> int \<Rightarrow> int" where
  "add_fixed_to_int x n = wrap32 (x + wrap32 (n * F))"

definition fixed_subtract_fixed :: "int \<Rightarrow> int \<Rightarrow> int" where
  "fixed_subtract_fixed x y = wrap32 (x - y)"

definition fixed_subtract_int :: "int \<Rightarrow> int \<Rightarrow> int" where
  "fixed_subtract_int x n = wrap32 (x - wrap32 (n * F))"

text \<open>
  The two macros below compute in 64 bits and their value has type \<open>int64_t\<close>; the
  conversion back to \<open>fixed_point\<close> happens at the assignment in the caller.
\<close>

definition multiply_fixed_by_fixed :: "int \<Rightarrow> int \<Rightarrow> int" where
  "multiply_fixed_by_fixed x y = c_div (wrap64 (x * y)) F"

definition multiply_fixed_by_int :: "int \<Rightarrow> int \<Rightarrow> int" where
  "multiply_fixed_by_int x n = wrap32 (x * n)"

definition div_fixed_by_fixed :: "int \<Rightarrow> int \<Rightarrow> int" where
  "div_fixed_by_fixed x y = c_div (wrap64 (x * F)) y"

definition div_fixed_by_int :: "int \<Rightarrow> int \<Rightarrow> int" where
  "div_fixed_by_int x n = c_div x n"

section \<open>Data model\<close>

text \<open>
  Pointers are addresses; \<open>NULL\<close> is address 0.  A \<open>struct thread *\<close> is the address of
  the page that holds the thread, a \<open>struct lock *\<close> the address of the lock.
\<close>

type_synonym addr = nat

definition NULL :: addr where
  "NULL = 0"

datatype thread_status = THREAD_RUNNING | THREAD_READY | THREAD_BLOCKED | THREAD_DYING

datatype intr_level = INTR_OFF | INTR_ON

text \<open>
  An \<open>ASSERT\<close> that fails panics the kernel, and so does a division by zero (the
  processor's divide error).  Both are results of the model, never silent.
\<close>

datatype error = Assertion_failed | Divide_error

text \<open>
  The three frames \<open>thread_create\<close> lays on a new stack.  The kernel-thread frame holds
  \<open>eip\<close>, \<open>function\<close> and \<open>aux\<close>; the switch-entry frame holds the entry point
  \<open>kernel_thread\<close>; the switch-threads frame holds \<open>eip = switch_entry\<close> and \<open>ebp\<close>.
\<close>

datatype frame =
  Kernel_thread_frame addr addr addr
| Switch_entry_frame
| Switch_threads_frame int

text \<open>
  \<open>struct thread\<close>.  The declaration (threads/thread.h) is not among the sources; the
  fields are those thread.c reads and writes.  The three list hooks are modelled through
  the lists they are linked into: \<open>elem\<close> by membership in \<open>ready_list\<close>, \<open>allelem\<close> by
  membership in \<open>all_list\<close>, \<open>dona_elem\<close> by membership in a thread's \<open>donations\<close>.  Of
  the hook \<open>dona_elem\<close> the code also inspects the pointer \<open>dona_elem.next\<close>, and only
  whether it is null: \<open>dona_elem_next_null\<close> is that test.  The stack pointer \<open>stack\<close> is
  modelled by the list of frames pushed so far.
\<close>

record thread =
  tid :: int
  status :: thread_status
  name :: string
  stack :: "frame list"
  priority :: int
  base_priority :: int
  donations :: "addr list"
  dona_elem_next_null :: bool
  required_lock :: addr
  nice :: int
  recent_cpu :: int
  magic :: nat

text \<open>
  The globals of thread.c, the static \<open>next_tid\<close> of \<open>allocate_tid\<close>, and what thread.c
  reads of its environment: the memory holding the threads (\<open>threads\<close>), the \<open>holder\<close>
  field of each lock (\<open>lock_holder\<close>), the page the stack pointer lies in
  (\<open>running_thread\<close>), the interrupt state (\<open>intr_level\<close>, \<open>intr_context\<close>,
  \<open>yield_on_return\<close>), the timer's tick counter (\<open>timer_ticks\<close>) and the pages handed
  back to the page allocator (\<open>freed_pages\<close>).
\<close>

record kernel =
  threads :: "addr \<Rightarrow> thread"
  lock_holder :: "addr \<Rightarrow> addr"
  ready_list :: "addr list"
  all_list :: "addr list"
  idle_thread :: addr
  initial_thread :: addr
  load_avg :: int
  idle_ticks :: int
  kernel_ticks :: int
  user_ticks :: int
  thread_ticks :: int
  thread_mlfqs :: bool
  next_tid :: int
  running_thread :: addr
  intr_level :: intr_level
  intr_context :: bool
  yield_on_return :: bool
  timer_ticks :: int
  freed_pages :: "addr list"

text \<open>\<open>#define THREAD_MAGIC 0xcd6abf4b\<close> and \<open>#define TIME_SLICE 4\<close>.\<close>

definition THREAD_MAGIC :: nat where
  "THREAD_MAGIC = 3446325067"

definition TIME_SLICE :: int where
  "TIME_SLICE = 4"

text \<open>
  Modelled from the spec: the constants of threads/thread.h, which is not among the
  sources.  The spec gives them bit-exact: \<open>PRI_MIN=0\<close>, \<open>PRI_DEFAULT=31\<close>,
  \<open>PRI_MAX=63\<close>, \<open>NICE_MIN=-20\<close>, \<open>NICE_MAX=20\<close>.
\<close>

definition PRI_MIN :: int where
  "PRI_MIN = 0"

definition PRI_DEFAULT :: int where
  "PRI_DEFAULT = 31"

definition PRI_MAX :: int where
  "PRI_MAX = 63"

definition NICE_MIN :: int where
  "NICE_MIN = - 20"

definition NICE_MAX :: int where
  "NICE_MAX = 20"

text \<open>
  Modelled from the spec: \<open>TID_ERROR\<close> of threads/thread.h, which is not among the
  sources.  The spec calls it \<open>ID_ERROR\<close>, the value \<open>create\<close> returns on allocation
  failure, and gives every thread an id of at least 1; the header's value is
  \<open>((tid_t) -1)\<close>.
\<close>

definition TID_ERROR :: int where
  "TID_ERROR = - 1"

definition upd_thread :: "addr \<Rightarrow> (thread \<Rightarrow> thread) \<Rightarrow> kernel \<Rightarrow> kernel" where
  "upd_thread t f s = s\<lparr>threads := (threads s)(t := f (threads s t))\<rparr>"

section \<open>The intrusive list\<close>

text \<open>
  Modelled from the spec: the list library (lib/kernel/list.c), which is not among the
  sources.  A list is the sequence of the threads whose hooks are linked into it, front
  first.  \<open>insert_ordered\<close> "scans front-to-back and inserts before the first element
  for which \<open>less(new, existing)\<close> is true"; \<open>remove(elem)\<close> unlinks the element;
  \<open>sort\<close> orders the list by \<open>less\<close>, keeping the order of elements that \<open>less\<close> does
  not separate; \<open>size\<close>, \<open>empty\<close>, \<open>front\<close>, \<open>pop_front\<close> and \<open>push_back\<close> are
  \<open>length\<close>, the test for \<open>[]\<close>, the head, the tail and appending.
\<close>

fun list_insert_ordered :: "('a \<Rightarrow> 'a \<Rightarrow> bool) \<Rightarrow> 'a \<Rightarrow> 'a list \<Rightarrow> 'a list" where
  "list_insert_ordered lt x [] = [x]"
| "list_insert_ordered lt x (y # ys) =
     (if lt x y then x # y # ys else y # list_insert_ordered lt x ys)"

definition list_remove :: "'a \<Rightarrow> 'a list \<Rightarrow> 'a list" where
  "list_remove x xs = remove1 x xs"

definition list_sort :: "('a \<Rightarrow> 'a \<Rightarrow> bool) \<Rightarrow> 'a list \<Rightarrow> 'a list" where
  "list_sort lt xs = foldl (\<lambda>acc x. list_insert_ordered lt x acc) [] xs"

section \<open>Interrupt primitives\<close>

text \<open>
  Modelled from the spec: threads/interrupt.c, which is not among the sources.
  \<open>intr_disable\<close> turns interrupts off and returns the previous level, \<open>intr_set_level\<close>
  sets the level, \<open>intr_yield_on_return\<close> "only sets a flag for preemption".
\<close>

definition intr_disable :: "kernel \<Rightarrow> intr_level \<times> kernel" where
  "intr_disable s = (intr_level s, s\<lparr>intr_level := INTR_OFF\<rparr>)"

definition intr_set_level :: "intr_level \<Rightarrow> kernel \<Rightarrow> kernel" where
  "intr_set_level l s = s\<lparr>intr_level := l\<rparr>"

definition intr_yield_on_return :: "kernel \<Rightarrow> kernel" where
  "intr_yield_on_return s = s\<lparr>yield_on_return := True\<rparr>"

section \<open>thread.c\<close>

definition is_thread :: "kernel \<Rightarrow> addr \<Rightarrow> bool" where
  "is_thread s t = (t \<noteq> NULL \<and> magic (threads s t) = THREAD_MAGIC)"

definition thread_current :: "kernel \<Rightarrow> error + addr" where
  "thread_current s =
     (let t = running_thread s in
      if \<not> is_thread s t then Inl Assertion_failed
      else if status (threads s t) \<noteq> THREAD_RUNNING then Inl Assertion_failed
      else Inr t)"

definition thread_compare_priority :: "kernel \<Rightarrow> addr \<Rightarrow> addr \<Rightarrow> bool" where
  "thread_compare_priority s a b = (priority (threads s a) > priority (threads s b))"

definition thread_compare_donation :: "kernel \<Rightarrow> addr \<Rightarrow> addr \<Rightarrow> bool" where
  "thread_compare_donation s a b = (priority (threads s a) > priority (threads s b))"

definition thread_get_priority :: "kernel \<Rightarrow> error + int" where
  "thread_get_priority s =
     (case thread_current s of Inl e \<Rightarrow> Inl e | Inr t \<Rightarrow> Inr (priority (threads s t)))"

text \<open>
  \<open>thread_get_max_priority\<close> and \<open>thread_get_donated_priority\<close> disable interrupts,
  read, and restore the level they found: the state they leave is the state they found.
\<close>

definition thread_get_max_priority :: "kernel \<Rightarrow> int" where
  "thread_get_max_priority s =
     (case ready_list s of [] \<Rightarrow> PRI_MIN - 1 | t # _ \<Rightarrow> priority (threads s t))"

definition thread_get_donated_priority :: "addr \<Rightarrow> kernel \<Rightarrow> error + int" where
  "thread_get_donated_priority t s =
     (if \<not> is_thread s t then Inl Assertion_failed
      else case donations (threads s t) of
             [] \<Rightarrow> Inr (PRI_MIN - 1)
           | doner # _ \<Rightarrow> Inr (priority (threads s doner)))"

definition thread_reinsert_ready_list :: "addr \<Rightarrow> kernel \<Rightarrow> error + kernel" where
  "thread_reinsert_ready_list t s =
     (if status (threads s t) = THREAD_READY then
        if intr_level s \<noteq> INTR_OFF then Inl Assertion_failed
        else Inr (s\<lparr>ready_list :=
               list_insert_ordered (thread_compare_priority s) t
                 (list_remove t (ready_list s))\<rparr>)
      else Inr s)"

definition thread_reset_priority :: "addr \<Rightarrow> kernel \<Rightarrow> error + kernel" where
  "thread_reset_priority t s =
     (if \<not> is_thread s t then Inl Assertion_failed
      else
        let (old_level, s1) = intr_disable s in
        case thread_get_donated_priority t s1 of
          Inl e \<Rightarrow> Inl e
        | Inr donated_priority \<Rightarrow>
            let s2 = (if donated_priority > base_priority (threads s1 t)
                      then upd_thread t (\<lambda>th. th\<lparr>priority := donated_priority\<rparr>) s1
                      else upd_thread t (\<lambda>th. th\<lparr>priority := base_priority th\<rparr>) s1)
            in case thread_reinsert_ready_list t s2 of
                 Inl e \<Rightarrow> Inl e
               | Inr s3 \<Rightarrow> Inr (intr_set_level old_level s3))"

text \<open>
  \<open>list_remove (&t->dona_elem)\<close> unlinks the hook from whichever list it is linked
  into; the hook is in the \<open>donations\<close> list of at most one thread, so the model removes
  \<open>t\<close> from every \<open>donations\<close> list.
\<close>

definition thread_remove_donation :: "addr \<Rightarrow> kernel \<Rightarrow> error + kernel" where
  "thread_remove_donation t s =
     (if intr_level s \<noteq> INTR_OFF then Inl Assertion_failed
      else if \<not> is_thread s t then Inl Assertion_failed
      else if \<not> dona_elem_next_null (threads s t) then
        let s1 = s\<lparr>threads := (\<lambda>a. (threads s a)\<lparr>donations :=
                                     list_remove t (donations (threads s a))\<rparr>)\<rparr>
        in Inr (upd_thread t (\<lambda>th. th\<lparr>dona_elem_next_null := True\<rparr>) s1)
      else Inr s)"

text \<open>
  \<open>thread_calculate_bsd_priority\<close>: the fixed-point value of
  \<open>PRI_MAX - recent_cpu / 4 - 2 * nice\<close>, converted with \<open>convert_to_int_round_down\<close>
  and clamped.
\<close>

definition thread_calculate_bsd_priority :: "addr \<Rightarrow> kernel \<Rightarrow> error + kernel" where
  "thread_calculate_bsd_priority t s =
     (if \<not> thread_mlfqs s then Inl Assertion_failed
      else if \<not> is_thread s t then Inl Assertion_failed
      else
        let fp_priority_max = convert_to_fixed_point PRI_MAX;
            temp_recent_cpu = div_fixed_by_int (recent_cpu (threads s t)) 4;
            temp_nice = convert_to_fixed_point (wrap32 (nice (threads s t) * 2));
            result = fixed_subtract_fixed fp_priority_max temp_recent_cpu;
            result = fixed_subtract_fixed result temp_nice;
            new_priority = convert_to_int_round_down result;
            new_priority = (if new_priority < PRI_MIN then PRI_MIN
                            else if new_priority > PRI_MAX then PRI_MAX
                            else new_priority)
        in Inr (upd_thread t (\<lambda>th. th\<lparr>priority := new_priority\<rparr>) s))"

text \<open>
  \<open>thread_foreach\<close> walks \<open>all_list\<close> front to back and applies \<open>func\<close> to each thread.
  The functions it is given here do not change \<open>all_list\<close>, so the walk is over the list
  as it is at the start.
\<close>

fun foreach_loop ::
  "(addr \<Rightarrow> kernel \<Rightarrow> error + kernel) \<Rightarrow> addr list \<Rightarrow> kernel \<Rightarrow> error + kernel" where
  "foreach_loop func [] s = Inr s"
| "foreach_loop func (t # ts) s =
     (case func t s of Inl e \<Rightarrow> Inl e | Inr s' \<Rightarrow> foreach_loop func ts s')"

definition thread_foreach ::
  "(addr \<Rightarrow> kernel \<Rightarrow> error + kernel) \<Rightarrow> kernel \<Rightarrow> error + kernel" where
  "thread_foreach func s =
     (if intr_level s \<noteq> INTR_OFF then Inl Assertion_failed
      else foreach_loop func (all_list s) s)"

text \<open>
  Modelled from the spec: the page allocator's \<open>palloc_free_page\<close> and the raw switch
  primitive \<open>switch_threads\<close> (threads/palloc.c, threads/switch.S), which are not among
  the sources.  Freeing records the page; the switch makes \<open>next\<close> the running thread
  and, on the new thread's side, returns the thread switched from.
\<close>

definition palloc_free_page :: "addr \<Rightarrow> kernel \<Rightarrow> kernel" where
  "palloc_free_page p s = s\<lparr>freed_pages := p # freed_pages s\<rparr>"

definition switch_threads :: "addr \<Rightarrow> addr \<Rightarrow> kernel \<Rightarrow> addr \<times> kernel" where
  "switch_threads cur next s = (cur, s\<lparr>running_thread := next\<rparr>)"

definition next_thread_to_run :: "kernel \<Rightarrow> addr \<times> kernel" where
  "next_thread_to_run s =
     (case ready_list s of
        [] \<Rightarrow> (idle_thread s, s)
      | t # ts \<Rightarrow> (t, s\<lparr>ready_list := ts\<rparr>))"

definition thread_schedule_tail :: "addr \<Rightarrow> kernel \<Rightarrow> error + kernel" where
  "thread_schedule_tail prev s =
     (let cur = running_thread s in
      if intr_level s \<noteq> INTR_OFF then Inl Assertion_failed
      else
        let s1 = upd_thread cur (\<lambda>th. th\<lparr>status := THREAD_RUNNING\<rparr>) s;
            s2 = s1\<lparr>thread_ticks := 0\<rparr>
        in if prev \<noteq> NULL \<and> status (threads s2 prev) = THREAD_DYING
              \<and> prev \<noteq> initial_thread s2
           then if prev = cur then Inl Assertion_failed
                else Inr (palloc_free_page prev s2)
           else Inr s2)"

text \<open>
  \<open>schedule\<close>.  The model follows the processor: after \<open>switch_threads\<close> the code that
  runs is the new thread's, which completes the switch in \<open>thread_schedule_tail\<close>.
\<close>

definition schedule :: "kernel \<Rightarrow> error + kernel" where
  "schedule s =
     (let cur = running_thread s;
          (next, s1) = next_thread_to_run s;
          prev = NULL
      in if intr_level s1 \<noteq> INTR_OFF then Inl Assertion_failed
         else if status (threads s1 cur) = THREAD_RUNNING then Inl Assertion_failed
         else if \<not> is_thread s1 next then Inl Assertion_failed
         else
           case (if thread_mlfqs s1
                 then case thread_foreach thread_calculate_bsd_priority s1 of
                        Inl e \<Rightarrow> Inl e
                      | Inr s2 \<Rightarrow>
                          Inr (s2\<lparr>ready_list :=
                                 list_sort (thread_compare_priority s2) (ready_list s2)\<rparr>)
                 else Inr s1) of
             Inl e \<Rightarrow> Inl e
           | Inr s3 \<Rightarrow>
               let (prev, s4) = (if cur \<noteq> next then switch_threads cur next s3
                                 else (prev, s3))
               in thread_schedule_tail prev s4)"

text \<open>
  \<open>thread_yield\<close>.  When \<open>schedule\<close> switched to another thread, the caller's
  \<open>intr_set_level (old_level)\<close> is not run until the caller is scheduled again; the
  model stops at the switch and runs it only when the caller is still the running
  thread.
\<close>

definition thread_yield :: "kernel \<Rightarrow> error + kernel" where
  "thread_yield s =
     (case thread_current s of
        Inl e \<Rightarrow> Inl e
      | Inr cur \<Rightarrow>
          if intr_context s then Inl Assertion_failed
          else
            let (old_level, s1) = intr_disable s;
                s2 = (if cur \<noteq> idle_thread s1
                      then s1\<lparr>ready_list :=
                              list_insert_ordered (thread_compare_priority s1) cur
                                (ready_list s1)\<rparr>
                      else s1);
                s3 = upd_thread cur (\<lambda>th. th\<lparr>status := THREAD_READY\<rparr>) s2
            in case schedule s3 of
                 Inl e \<Rightarrow> Inl e
               | Inr s4 \<Rightarrow>
                   Inr (if running_thread s4 = cur then intr_set_level old_level s4
                        else s4))"

definition thread_max_yield :: "kernel \<Rightarrow> error + kernel" where
  "thread_max_yield s =
     (case thread_get_priority s of
        Inl e \<Rightarrow> Inl e
      | Inr p \<Rightarrow>
          if thread_get_max_priority s > p then
            if intr_context s then Inr (intr_yield_on_return s)
            else thread_yield s
          else Inr s)"

definition thread_set_priority :: "int \<Rightarrow> kernel \<Rightarrow> error + kernel" where
  "thread_set_priority new_priority s =
     (if \<not> (PRI_MIN \<le> new_priority \<and> new_priority \<le> PRI_MAX) then Inl Assertion_failed
      else if \<not> thread_mlfqs s then
        case thread_current s of
          Inl e \<Rightarrow> Inl e
        | Inr cur \<Rightarrow>
            let s1 = upd_thread cur (\<lambda>th. th\<lparr>base_priority := new_priority\<rparr>) s
            in case thread_current s1 of
                 Inl e \<Rightarrow> Inl e
               | Inr cur1 \<Rightarrow>
                   (case thread_reset_priority cur1 s1 of
                      Inl e \<Rightarrow> Inl e
                    | Inr s2 \<Rightarrow> thread_max_yield s2)
      else Inr s)"

text \<open>
  \<open>thread_donate_priority\<close>.  The \<open>while\<close> loop is \<open>donate_loop\<close>; a run of the loop
  that never leaves it has the value \<open>None\<close>.  \<open>list_insert_ordered\<close> links the hook
  \<open>dona_elem\<close> of \<open>t\<close> into the holder's list, which makes \<open>dona_elem.next\<close> non-null.
\<close>

partial_function (option) donate_loop :: "addr \<Rightarrow> kernel \<Rightarrow> (error + kernel) option" where
  "donate_loop t s =
     (if required_lock (threads s t) \<noteq> NULL then
        case thread_reset_priority t s of
          Inl e \<Rightarrow> Some (Inl e)
        | Inr s1 \<Rightarrow>
            let holder = lock_holder s1 (required_lock (threads s1 t)) in
            if holder = t then Some (Inl Assertion_failed)
            else
              case thread_current s1 of
                Inl e \<Rightarrow> Some (Inl e)
              | Inr cur \<Rightarrow>
                  (case (if cur \<noteq> t then thread_remove_donation t s1 else Inr s1) of
                     Inl e \<Rightarrow> Some (Inl e)
                   | Inr s2 \<Rightarrow>
                       if holder \<noteq> NULL then
                         if \<not> is_thread s2 holder then Some (Inl Assertion_failed)
                         else
                           let s3 = upd_thread holder (\<lambda>th. th\<lparr>donations :=
                                      list_insert_ordered (thread_compare_donation s2) t
                                        (donations th)\<rparr>) s2;
                               s4 = upd_thread t
                                      (\<lambda>th. th\<lparr>dona_elem_next_null := False\<rparr>) s3
                           in donate_loop holder s4
                       else donate_loop t s2)
      else Some (thread_reset_priority t s))"

definition thread_donate_priority :: "addr \<Rightarrow> kernel \<Rightarrow> (error + kernel) option" where
  "thread_donate_priority t s =
     (if intr_level s \<noteq> INTR_OFF then Some (Inl Assertion_failed)
      else if \<not> is_thread s t then Some (Inl Assertion_failed)
      else donate_loop t s)"

definition get_ready_threads_size :: "kernel \<Rightarrow> error + int" where
  "get_ready_threads_size s =
     (if \<not> thread_mlfqs s then Inl Assertion_failed
      else
        let size = wrap32 (int (length (ready_list s))) in
        case thread_current s of
          Inl e \<Rightarrow> Inl e
        | Inr cur \<Rightarrow> Inr (if cur \<noteq> idle_thread s then wrap32 (size + 1) else size))"

text \<open>
  \<open>thread_calculate_load_avg\<close>.  \<open>multiply_fixed_by_fixed\<close> yields an \<open>int64_t\<close>; the
  assignment to the \<open>fixed_point\<close> variable brings it back to 32 bits.
\<close>

definition thread_calculate_load_avg :: "kernel \<Rightarrow> error + kernel" where
  "thread_calculate_load_avg s =
     (if \<not> thread_mlfqs s then Inl Assertion_failed
      else
        let fp_59 = convert_to_fixed_point 59;
            fp_1 = convert_to_fixed_point 1;
            temp_load_avg = div_fixed_by_int fp_59 60;
            temp_ready_coeff = div_fixed_by_int fp_1 60;
            temp_load_avg = wrap32 (multiply_fixed_by_fixed temp_load_avg (load_avg s))
        in case get_ready_threads_size s of
             Inl e \<Rightarrow> Inl e
           | Inr n \<Rightarrow>
               let temp_ready_coeff = multiply_fixed_by_int temp_ready_coeff n
               in Inr (s\<lparr>load_avg := add_fixed_to_fixed temp_load_avg temp_ready_coeff\<rparr>))"

text \<open>
  \<open>thread_calculate_recent_cpu\<close>.  The divisor \<open>2 * load_avg + 1\<close> is not checked by
  the code; a zero divisor is the processor's divide error.
\<close>

definition thread_calculate_recent_cpu :: "addr \<Rightarrow> kernel \<Rightarrow> error + kernel" where
  "thread_calculate_recent_cpu t s =
     (if \<not> thread_mlfqs s then Inl Assertion_failed
      else
        let recent_cpu0 = recent_cpu (threads s t);
            temp_load_avg = multiply_fixed_by_int (load_avg s) 2;
            temp_sum = add_fixed_to_int temp_load_avg 1
        in if temp_sum = 0 then Inl Divide_error
           else
             let coefficient = wrap32 (div_fixed_by_fixed temp_load_avg temp_sum);
                 recent_cpu1 = wrap32 (multiply_fixed_by_fixed coefficient recent_cpu0);
                 recent_cpu2 = add_fixed_to_int recent_cpu1 (nice (threads s t))
             in Inr (upd_thread t (\<lambda>th. th\<lparr>recent_cpu := recent_cpu2\<rparr>) s))"

text \<open>
  \<open>thread_recalculate_bsd_variables\<close>.  \<open>TIMER_FREQ\<close> (devices/timer.h, not among the
  sources) is a parameter; \<open>timer_ticks ()\<close> reads the timer's tick counter.
\<close>

definition thread_recalculate_bsd_variables :: "int \<Rightarrow> kernel \<Rightarrow> error + kernel" where
  "thread_recalculate_bsd_variables TIMER_FREQ s =
     (if \<not> thread_mlfqs s then Inl Assertion_failed
      else
        case thread_current s of
          Inl e \<Rightarrow> Inl e
        | Inr t \<Rightarrow>
            (case (if t \<noteq> idle_thread s then
                     if status (threads s t) \<noteq> THREAD_RUNNING then Inl Assertion_failed
                     else Inr (upd_thread t
                            (\<lambda>th. th\<lparr>recent_cpu := add_fixed_to_int (recent_cpu th) 1\<rparr>) s)
                   else Inr s) of
               Inl e \<Rightarrow> Inl e
             | Inr s1 \<Rightarrow>
                 if TIMER_FREQ = 0 then Inl Divide_error
                 else if c_mod (timer_ticks s1) TIMER_FREQ = 0 then
                   case thread_calculate_load_avg s1 of
                     Inl e \<Rightarrow> Inl e
                   | Inr s2 \<Rightarrow> thread_foreach thread_calculate_recent_cpu s2
                 else Inr s1))"

text \<open>
  \<open>thread_tick\<close>, built without \<open>USERPROG\<close>.  The statistics counters are
  \<open>long long\<close>, \<open>thread_ticks\<close> is \<open>unsigned\<close>.
\<close>

definition thread_tick :: "int \<Rightarrow> kernel \<Rightarrow> error + kernel" where
  "thread_tick TIMER_FREQ s =
     (case thread_current s of
        Inl e \<Rightarrow> Inl e
      | Inr t \<Rightarrow>
          let s1 = (if t = idle_thread s then s\<lparr>idle_ticks := wrap64 (idle_ticks s + 1)\<rparr>
                    else s\<lparr>kernel_ticks := wrap64 (kernel_ticks s + 1)\<rparr>)
          in case (if thread_mlfqs s1 then thread_recalculate_bsd_variables TIMER_FREQ s1
                   else Inr s1) of
               Inl e \<Rightarrow> Inl e
             | Inr s2 \<Rightarrow>
                 let s3 = s2\<lparr>thread_ticks := (thread_ticks s2 + 1) mod 4294967296\<rparr>
                 in if thread_ticks s3 \<ge> TIME_SLICE then Inr (intr_yield_on_return s3)
                    else Inr s3)"

definition thread_set_nice :: "int \<Rightarrow> kernel \<Rightarrow> error + kernel" where
  "thread_set_nice new_nice s =
     (if \<not> thread_mlfqs s then Inl Assertion_failed
      else if \<not> (new_nice \<ge> NICE_MIN \<and> new_nice \<le> NICE_MAX) then Inl Assertion_failed
      else
        case thread_current s of
          Inl e \<Rightarrow> Inl e
        | Inr t \<Rightarrow>
            let s1 = upd_thread t (\<lambda>th. th\<lparr>nice := new_nice\<rparr>) s
            in case thread_calculate_bsd_priority t s1 of
                 Inl e \<Rightarrow> Inl e
               | Inr s2 \<Rightarrow>
                   (case thread_reinsert_ready_list t s2 of
                      Inl e \<Rightarrow> Inl e
                    | Inr s3 \<Rightarrow> thread_max_yield s3))"

text \<open>
  \<open>init_thread\<close>.  \<open>memset (t, 0, sizeof *t)\<close> leaves every field zero, the hook pointers
  null and the first enumerator as status.  The name is a C string, \<open>None\<close> for a null
  pointer; \<open>strlcpy\<close> into the 16-byte field keeps at most 15 characters.
\<close>

definition zero_thread :: thread where
  "zero_thread =
     \<lparr>tid = 0, status = THREAD_RUNNING, name = [], stack = [], priority = 0,
      base_priority = 0, donations = [], dona_elem_next_null = True,
      required_lock = NULL, nice = 0, recent_cpu = 0, magic = 0\<rparr>"

definition init_thread :: "addr \<Rightarrow> string option \<Rightarrow> int \<Rightarrow> kernel \<Rightarrow> error + kernel" where
  "init_thread t name_arg priority_arg s =
     (if t = NULL then Inl Assertion_failed
      else if \<not> (PRI_MIN \<le> priority_arg \<and> priority_arg \<le> PRI_MAX) then Inl Assertion_failed
      else case name_arg of
             None \<Rightarrow> Inl Assertion_failed
           | Some n \<Rightarrow>
               let s1 = upd_thread t (\<lambda>_. zero_thread) s;
                   s2 = upd_thread t (\<lambda>th. th\<lparr>status := THREAD_BLOCKED\<rparr>) s1;
                   s3 = upd_thread t (\<lambda>th. th\<lparr>name := take 15 n\<rparr>) s2;
                   s4 = upd_thread t (\<lambda>th. th\<lparr>stack := []\<rparr>) s3;
                   s5 = upd_thread t (\<lambda>th. th\<lparr>priority := priority_arg\<rparr>) s4;
                   s6 = upd_thread t (\<lambda>th. th\<lparr>base_priority := priority_arg\<rparr>) s5;
                   s7 = upd_thread t (\<lambda>th. th\<lparr>required_lock := NULL\<rparr>) s6;
                   s8 = upd_thread t (\<lambda>th. th\<lparr>magic := THREAD_MAGIC\<rparr>) s7;
                   s9 = upd_thread t (\<lambda>th. th\<lparr>donations := []\<rparr>) s8;
                   (old_level, s10) = intr_disable s9;
                   s11 = s10\<lparr>all_list := all_list s10 @ [t]\<rparr>
               in Inr (intr_set_level old_level s11))"

text \<open>
  \<open>alloc_frame\<close> moves the stack pointer down and returns the frame's address; the
  caller then fills the frame in.  The model pushes the filled frame.  The sizes of the
  three frame types are multiples of four, so the size assertion holds.
\<close>

definition alloc_frame :: "addr \<Rightarrow> frame \<Rightarrow> kernel \<Rightarrow> error + kernel" where
  "alloc_frame t fr s =
     (if \<not> is_thread s t then Inl Assertion_failed
      else Inr (upd_thread t (\<lambda>th. th\<lparr>stack := fr # stack th\<rparr>) s))"

text \<open>
  \<open>allocate_tid\<close>.  Modelled from the spec: the lock primitive (threads/synch.c) is not
  among the sources; \<open>tid_lock\<close> is uncontended and taking and releasing it leaves the
  scheduler state as it is.
\<close>

definition allocate_tid :: "kernel \<Rightarrow> int \<times> kernel" where
  "allocate_tid s = (next_tid s, s\<lparr>next_tid := wrap32 (next_tid s + 1)\<rparr>)"

text \<open>
  \<open>thread_init\<close>.  \<open>lock_init\<close> and \<open>list_init\<close> leave the lock free and the lists
  empty.
\<close>

definition thread_init :: "kernel \<Rightarrow> error + kernel" where
  "thread_init s =
     (if intr_level s \<noteq> INTR_OFF then Inl Assertion_failed
      else
        let s1 = s\<lparr>ready_list := [], all_list := []\<rparr>;
            s2 = s1\<lparr>load_avg := 0\<rparr>;
            s3 = s2\<lparr>initial_thread := running_thread s2\<rparr>
        in case init_thread (initial_thread s3) (Some ''main'') PRI_DEFAULT s3 of
             Inl e \<Rightarrow> Inl e
           | Inr s4 \<Rightarrow>
               let s5 = upd_thread (initial_thread s4)
                          (\<lambda>th. th\<lparr>status := THREAD_RUNNING\<rparr>) s4;
                   (new_tid, s6) = allocate_tid s5
               in Inr (upd_thread (initial_thread s6) (\<lambda>th. th\<lparr>tid := new_tid\<rparr>) s6))"

definition thread_unblock :: "addr \<Rightarrow> kernel \<Rightarrow> error + kernel" where
  "thread_unblock t s =
     (if \<not> is_thread s t then Inl Assertion_failed
      else
        let (old_level, s1) = intr_disable s in
        if status (threads s1 t) \<noteq> THREAD_BLOCKED then Inl Assertion_failed
        else
          let s2 = s1\<lparr>ready_list :=
                      list_insert_ordered (thread_compare_priority s1) t (ready_list s1)\<rparr>;
              s3 = upd_thread t (\<lambda>th. th\<lparr>status := THREAD_READY\<rparr>) s2
          in Inr (intr_set_level old_level s3))"

text \<open>
  \<open>thread_create\<close>.  \<open>page\<close> is what \<open>palloc_get_page (PAL_ZERO)\<close> returns: the address
  of a zeroed page, or \<open>NULL\<close> when the allocator has none.  \<open>function\<close> and \<open>aux\<close> are
  pointers.  The result is the returned \<open>tid_t\<close> and the state.
\<close>

definition thread_create ::
  "addr \<Rightarrow> string option \<Rightarrow> int \<Rightarrow> addr \<Rightarrow> addr \<Rightarrow> kernel \<Rightarrow> error + (int \<times> kernel)" where
  "thread_create page name_arg priority_arg function aux s =
     (if function = NULL then Inl Assertion_failed
      else
        let t = page in
        if t = NULL then Inr (TID_ERROR, s)
        else
          case init_thread t name_arg priority_arg s of
            Inl e \<Rightarrow> Inl e
          | Inr s1 \<Rightarrow>
              let (new_tid, s2) = allocate_tid s1;
                  s3 = upd_thread t (\<lambda>th. th\<lparr>tid := new_tid\<rparr>) s2;
                  (old_level, s4) = intr_disable s3
              in case alloc_frame t (Kernel_thread_frame NULL function aux) s4 of
                   Inl e \<Rightarrow> Inl e
                 | Inr s5 \<Rightarrow>
                     (case alloc_frame t Switch_entry_frame s5 of
                        Inl e \<Rightarrow> Inl e
                      | Inr s6 \<Rightarrow>
                          (case alloc_frame t (Switch_threads_frame 0) s6 of
                             Inl e \<Rightarrow> Inl e
                           | Inr s7 \<Rightarrow>
                               let s8 = intr_set_level old_level s7
                               in case thread_unblock t s8 of
                                    Inl e \<Rightarrow> Inl e
                                  | Inr s9 \<Rightarrow>
                                      (case thread_max_yield s9 of
                                         Inl e \<Rightarrow> Inl e
                                       | Inr s10 \<Rightarrow> Inr (new_tid, s10)))))"

section \<open>Example states\<close>

text \<open>
  Concrete threads and kernel states, on which the theorems below are evaluated.
  \<open>example_thread\<close> is a live thread (its magic is intact) with the given status,
  effective and base priority, donations and required lock; \<open>example_kernel\<close> is a state
  in thread context with interrupts off, no idle thread created yet, and \<open>next_tid\<close> as
  it is after the creation of two threads.
\<close>

definition example_thread ::
  "thread_status \<Rightarrow> int \<Rightarrow> int \<Rightarrow> addr list \<Rightarrow> addr \<Rightarrow> thread" where
  "example_thread st p b ds l =
     zero_thread\<lparr>status := st, priority := p, base_priority := b, donations := ds,
       required_lock := l, magic := THREAD_MAGIC\<rparr>"

definition example_kernel :: "(addr \<Rightarrow> thread) \<Rightarrow> addr list \<Rightarrow> addr list \<Rightarrow> bool \<Rightarrow> kernel" where
  "example_kernel ths rl al mlfqs =
     \<lparr>threads = ths, lock_holder = (\<lambda>_. NULL), ready_list = rl, all_list = al,
      idle_thread = NULL, initial_thread = 1, load_avg = 0, idle_ticks = 0,
      kernel_ticks = 0, user_ticks = 0, thread_ticks = 0, thread_mlfqs = mlfqs,
      next_tid = 3, running_thread = 1, intr_level = INTR_OFF, intr_context = False,
      yield_on_return = False, timer_ticks = 0, freed_pages = []\<rparr>"

text \<open>
  Thread 1 runs at base priority 31 and has two donors, thread 2 (priority 40) and
  thread 3 (priority 35), both blocked on lock 7, which thread 1 holds.
\<close>

definition donation_state :: kernel where
  "donation_state =
     (example_kernel
        ((\<lambda>_. zero_thread)
           (1 := example_thread THREAD_RUNNING 31 31 [2, 3] NULL,
            2 := (example_thread THREAD_BLOCKED 40 40 [] 7)\<lparr>dona_elem_next_null := False\<rparr>,
            3 := (example_thread THREAD_BLOCKED 35 35 [] 7)\<lparr>dona_elem_next_null := False\<rparr>))
        [] [1, 2, 3] False)\<lparr>lock_holder := (\<lambda>_. NULL)(7 := 1)\<rparr>"

text \<open>
  An MLFQS state at the fourth timer tick: thread 1 runs, thread 2 is ready, both at
  priority 31 with \<open>nice\<close> 0 and \<open>recent_cpu\<close> 0.
\<close>

definition mlfqs_state :: kernel where
  "mlfqs_state =
     (example_kernel
        ((\<lambda>_. zero_thread)
           (1 := example_thread THREAD_RUNNING 31 31 [] NULL,
            2 := example_thread THREAD_READY 31 31 [] NULL))
        [2] [1, 2] True)\<lparr>timer_ticks := 4, thread_ticks := 3, intr_context := True\<rparr>"

text \<open>The same state in thread context, outside any interrupt handler.\<close>

definition mlfqs_thread_state :: kernel where
  "mlfqs_thread_state = mlfqs_state\<lparr>intr_context := False\<rparr>"

text \<open>
  The same two threads with a load average of 2.0 (\<open>2 * F\<close>), the value the recurrence
  holds steady at when two threads are ready to run all the time.
\<close>

definition steady_state :: kernel where
  "steady_state = mlfqs_state\<lparr>load_avg := 32768\<rparr>"

section \<open>The load-average recurrence as the specification words it\<close>

text \<open>
  The specification's \<open>ready_thread_count = size(ready_list) + (running \<noteq> idle ? 1 : 0)\<close>,
  to be compared with \<open>get_ready_threads_size\<close>.
\<close>

definition spec_ready_thread_count :: "kernel \<Rightarrow> int" where
  "spec_ready_thread_count s =
     int (length (ready_list s)) + (if running_thread s \<noteq> idle_thread s then 1 else 0)"

text \<open>
  The specification's \<open>load_avg = (59/60) * load_avg + (1/60) * ready_thread_count\<close>,
  evaluated exactly, in units of \<open>1/F\<close> (one ulp) like the stored value.
\<close>

definition spec_load_avg :: "int \<Rightarrow> int \<Rightarrow> real" where
  "spec_load_avg l r = (59 / 60) * real_of_int l + (1 / 60) * real_of_int r * 16384"

section \<open>The MLFQS priority formula as the specification words it\<close>

text \<open>
  The specification's \<open>priority = clamp(PRI_MAX - recent_cpu/4 - 2*nice, PRI_MIN,
  PRI_MAX)\<close>, "truncating toward minus infinity via fp to int floor", in 17.14 fixed
  point: \<open>recent_cpu/4\<close> is the fixed-point value divided by the integer 4, and the
  integers \<open>PRI_MAX\<close> and \<open>2*nice\<close> are scaled by \<open>F\<close>.  To be compared with
  \<open>thread_calculate_bsd_priority\<close>.
\<close>

definition spec_bsd_priority :: "int \<Rightarrow> int \<Rightarrow> int" where
  "spec_bsd_priority rc n =
     max PRI_MIN (min PRI_MAX ((PRI_MAX * F - c_div rc 4 - 2 * n * F) div F))"

text \<open>A state without its priorities: what a recomputation of priorities leaves alone.\<close>

definition erase_priority :: "kernel \<Rightarrow> kernel" where
  "erase_priority s = s\<lparr>threads := \<lambda>a. (threads s a)\<lparr>priority := 0\<rparr>\<rparr>"

section \<open>A donation walk that meets a free lock\<close>

text \<open>
  Thread 1 runs and is about to wait for lock 7, held by thread 2.  Thread 2 was woken
  by the release of lock 8 and has not run yet: it is ready, still records lock 8 as its
  required lock, and lock 8 has no holder.
\<close>

definition free_lock_state :: kernel where
  "free_lock_state =
     (example_kernel
        ((\<lambda>_. zero_thread)
           (1 := example_thread THREAD_RUNNING 40 40 [] 7,
            2 := example_thread THREAD_READY 31 31 [] 8))
        [2] [1, 2] False)\<lparr>lock_holder := (\<lambda>_. NULL)(7 := 2)\<rparr>"

text \<open>
  The situation in which the walk stands at a thread \<open>t\<close> whose required lock has a
  null holder, with the assertions of the loop body satisfied (interrupts off, \<open>t\<close> and
  the running thread live, the running thread \<open>THREAD_RUNNING\<close>).
\<close>

definition waits_on_free_lock :: "addr \<Rightarrow> kernel \<Rightarrow> bool" where
  "waits_on_free_lock t s =
     (intr_level s = INTR_OFF \<and> is_thread s t
      \<and> is_thread s (running_thread s)
      \<and> status (threads s (running_thread s)) = THREAD_RUNNING
      \<and> required_lock (threads s t) \<noteq> NULL
      \<and> lock_holder s (required_lock (threads s t)) = NULL)"

section \<open>Thread creation\<close>

text \<open>
  The state after \<open>thread_init\<close>, with interrupts on: thread 1 (\<open>main\<close>) runs at
  priority 31 and is the only thread.
\<close>

definition boot_state :: kernel where
  "boot_state =
     (example_kernel ((\<lambda>_. zero_thread)(1 := example_thread THREAD_RUNNING 31 31 [] NULL))
        [] [1] False)\<lparr>intr_level := INTR_ON\<rparr>"

text \<open>
  The same state after the id counter has wrapped around and come up to \<open>-1\<close>.
\<close>

definition wrapped_state :: kernel where
  "wrapped_state = boot_state\<lparr>next_tid := - 1\<rparr>"

text \<open>
  The ids in a state: the next id \<open>allocate_tid\<close> hands out, and the id stored in each
  thread.
\<close>

definition tids :: "kernel \<Rightarrow> int \<times> (addr \<Rightarrow> int)" where
  "tids s = (next_tid s, \<lambda>a. tid (threads s a))"

text \<open>
  A chain of required-lock holders that ends: within \<open>n\<close> steps from \<open>t\<close>, each
  through a lock with a non-null holder, a thread with no required lock is reached.
  \<open>same_locks\<close> relates two states with the same holders and required locks.
\<close>

fun walk_ends :: "nat \<Rightarrow> kernel \<Rightarrow> addr \<Rightarrow> bool" where
  "walk_ends 0 s t = (required_lock (threads s t) = NULL)"
| "walk_ends (Suc n) s t =
     (required_lock (threads s t) = NULL
      \<or> (lock_holder s (required_lock (threads s t)) \<noteq> NULL
          \<and> walk_ends n s (lock_holder s (required_lock (threads s t)))))"

definition same_locks :: "kernel \<Rightarrow> kernel \<Rightarrow> bool" where
  "same_locks s s' =
     (lock_holder s' = lock_holder s
      \<and> (\<forall>a. required_lock (threads s' a) = required_lock (threads s a)))"

section \<open>Arithmetic facts\<close>

lemma wrap32_id: "- 2147483648 \<le> x \<Longrightarrow> x < 2147483648 \<Longrightarrow> wrap32 x = x"
  by (simp add: wrap32_def)

lemma wrap64_id:
  "- 9223372036854775808 \<le> x \<Longrightarrow> x < 9223372036854775808 \<Longrightarrow> wrap64 x = x"
  by (simp add: wrap64_def)

lemma F_value: "F = 16384"
  by (simp add: F_def Q_def)

lemma half_F: "c_div 16384 2 = 8192"
  by (simp add: c_div_def)

lemma c_div_nonneg: "0 \<le> a \<Longrightarrow> 0 < b \<Longrightarrow> c_div a b = a div b"
  by (simp add: c_div_def)

lemma c_div_neg: "a < 0 \<Longrightarrow> 0 < b \<Longrightarrow> c_div a b = - ((- a) div b)"
  by (simp add: c_div_def)

lemma front_is_max:
  assumes "sorted_wrt (\<lambda>a b. f a \<ge> f b) (d # ds)"
  shows "Max (insert (b::int) (f ` set (d # ds))) = max b (f d)"
proof (rule Max_eqI)
  show "finite (insert b (f ` set (d # ds)))" by simp
  show "max b (f d) \<in> insert b (f ` set (d # ds))" by (auto simp: max_def)
  fix y assume "y \<in> insert b (f ` set (d # ds))"
  with assms show "y \<le> max b (f d)" by auto
qed

section \<open>State facts\<close>

lemma threads_upd_thread [simp]:
  "threads (upd_thread t f s) = (threads s)(t := f (threads s t))"
  by (simp add: upd_thread_def)

lemmas example_defs =
  example_kernel_def example_thread_def zero_thread_def is_thread_def NULL_def
  THREAD_MAGIC_def

lemmas intr_defs = intr_disable_def intr_set_level_def intr_yield_on_return_def

section \<open>Effective priority\<close>

text \<open>
  C1.  For every thread \<open>t\<close> (a live thread, with its base priority at least
  \<open>PRI_MIN\<close>) whose donations list is sorted descending by the donors' effective
  priority, \<open>thread_reset_priority\<close> returns and sets the priority of \<open>t\<close> to the maximum
  of its base priority and its donors' priorities, and to exactly its base priority when
  the donations list is empty.
\<close>

theorem thread_reset_priority_max:
  assumes live: "is_thread s t"
    and sorted: "sorted_wrt (\<lambda>a b. priority (threads s a) \<ge> priority (threads s b))
                   (donations (threads s t))"
    and base: "PRI_MIN \<le> base_priority (threads s t)"
  shows "\<exists>s'. thread_reset_priority t s = Inr s'
           \<and> priority (threads s' t) =
               Max (insert (base_priority (threads s t))
                      ((\<lambda>d. priority (threads s d)) ` set (donations (threads s t))))
           \<and> (donations (threads s t) = []
                \<longrightarrow> priority (threads s' t) = base_priority (threads s t))"
proof (cases "donations (threads s t)")
  case Nil
  with live base show ?thesis
    by (simp add: thread_reset_priority_def thread_get_donated_priority_def
        thread_reinsert_ready_list_def intr_defs upd_thread_def is_thread_def Let_def
        PRI_MIN_def)
next
  case (Cons d ds)
  have "Max (insert (base_priority (threads s t))
          ((\<lambda>d. priority (threads s d)) ` set (d # ds)))
        = max (base_priority (threads s t)) (priority (threads s d))"
    using sorted unfolding Cons by (rule front_is_max)
  with live Cons show ?thesis
    by (simp add: thread_reset_priority_def thread_get_donated_priority_def
        thread_reinsert_ready_list_def intr_defs upd_thread_def is_thread_def Let_def
        max_def)
qed

theorem thread_reset_priority_max_witness:
  "is_thread donation_state 1
   \<and> sorted_wrt (\<lambda>a b. priority (threads donation_state a) \<ge> priority (threads donation_state b))
        (donations (threads donation_state 1))
   \<and> PRI_MIN \<le> base_priority (threads donation_state 1)
   \<and> (\<exists>s'. thread_reset_priority 1 donation_state = Inr s' \<and> priority (threads s' 1) = 40)"
  using thread_reset_priority_max [of donation_state 1]
  by (simp add: donation_state_def example_defs PRI_MIN_def)

section \<open>MLFQS priority\<close>

lemma clamp_in_range:
  "PRI_MIN \<le> (if x < PRI_MIN then PRI_MIN else if x > PRI_MAX then PRI_MAX else x)
   \<and> (if x < PRI_MIN then PRI_MIN else if x > PRI_MAX then PRI_MAX else x) \<le> PRI_MAX"
  by (simp add: PRI_MIN_def PRI_MAX_def)

lemma bsd_priority_clamped:
  assumes "thread_mlfqs s" and "is_thread s t"
  shows "\<exists>s'. thread_calculate_bsd_priority t s = Inr s'
           \<and> PRI_MIN \<le> priority (threads s' t) \<and> priority (threads s' t) \<le> PRI_MAX"
proof -
  define x where "x = convert_to_int_round_down
      (fixed_subtract_fixed
         (fixed_subtract_fixed (convert_to_fixed_point PRI_MAX)
            (div_fixed_by_int (recent_cpu (threads s t)) 4))
         (convert_to_fixed_point (wrap32 (nice (threads s t) * 2))))"
  define p where "p = (if x < PRI_MIN then PRI_MIN else if x > PRI_MAX then PRI_MAX else x)"
  have "thread_calculate_bsd_priority t s
        = Inr (upd_thread t (\<lambda>th. th\<lparr>priority := p\<rparr>) s)"
    using assms by (simp add: thread_calculate_bsd_priority_def Let_def x_def p_def)
  moreover have "PRI_MIN \<le> p \<and> p \<le> PRI_MAX"
    unfolding p_def by (rule clamp_in_range)
  ultimately show ?thesis by simp
qed

text \<open>
  C4.  In MLFQS mode, \<open>thread_calculate_bsd_priority\<close> on a live thread returns, and
  afterwards the thread's priority lies in \<open>[PRI_MIN, PRI_MAX]\<close>, for every value of the
  thread's \<open>recent_cpu\<close> and of its \<open>nice\<close>, in particular for every \<open>nice\<close> in
  \<open>[NICE_MIN, NICE_MAX]\<close>.
\<close>

theorem thread_calculate_bsd_priority_range:
  assumes "thread_mlfqs s" and "is_thread s t"
  shows "\<exists>s'. thread_calculate_bsd_priority t s = Inr s'
           \<and> PRI_MIN \<le> priority (threads s' t) \<and> priority (threads s' t) \<le> PRI_MAX"
  using assms by (rule bsd_priority_clamped)

theorem thread_calculate_bsd_priority_range_witness:
  "thread_mlfqs mlfqs_state \<and> is_thread mlfqs_state 2
   \<and> (\<exists>s'. thread_calculate_bsd_priority 2 mlfqs_state = Inr s'
         \<and> PRI_MIN \<le> priority (threads s' 2) \<and> priority (threads s' 2) \<le> PRI_MAX)"
  using thread_calculate_bsd_priority_range [of mlfqs_state 2]
  by (simp add: mlfqs_state_def example_defs)

section \<open>Setting the priority under MLFQS\<close>

text \<open>
  C9.  When \<open>thread_mlfqs\<close> is true, \<open>thread_set_priority p\<close> is a complete no-op for
  every \<open>p\<close> in \<open>[PRI_MIN, PRI_MAX]\<close>: the call returns and the state (the current
  thread's base and effective priority, the ready queue, the running thread and
  everything else) is what it was.
\<close>

theorem thread_set_priority_mlfqs_noop:
  assumes "thread_mlfqs s" and "PRI_MIN \<le> p" and "p \<le> PRI_MAX"
  shows "thread_set_priority p s = Inr s"
  using assms by (simp add: thread_set_priority_def)

theorem thread_set_priority_mlfqs_noop_witness:
  "thread_mlfqs mlfqs_state \<and> PRI_MIN \<le> 50 \<and> 50 \<le> PRI_MAX
   \<and> thread_set_priority 50 mlfqs_state = Inr mlfqs_state"
  using thread_set_priority_mlfqs_noop [of mlfqs_state 50]
  by (simp add: mlfqs_state_def example_defs PRI_MIN_def PRI_MAX_def)

section \<open>Removing a donation\<close>

text \<open>
  C10.  \<open>thread_remove_donation\<close> is idempotent.  Called with interrupts off on a live
  thread \<open>t\<close> (otherwise its assertions stop the kernel), it returns; afterwards the
  \<open>next\<close> pointer of the donation hook of \<open>t\<close> is null, and a further call on \<open>t\<close>
  returns the state unchanged, every donations list included.  A call on a thread whose
  hook's \<open>next\<close> pointer is already null changes nothing.
\<close>

theorem thread_remove_donation_idempotent:
  assumes "intr_level s = INTR_OFF" and "is_thread s t"
  shows "\<exists>s'. thread_remove_donation t s = Inr s'
           \<and> dona_elem_next_null (threads s' t)
           \<and> thread_remove_donation t s' = Inr s'
           \<and> (dona_elem_next_null (threads s t) \<longrightarrow> s' = s)"
  using assms
  by (simp add: thread_remove_donation_def upd_thread_def is_thread_def Let_def)

theorem thread_remove_donation_idempotent_witness:
  "intr_level donation_state = INTR_OFF \<and> is_thread donation_state 2
   \<and> (\<exists>s'. thread_remove_donation 2 donation_state = Inr s'
         \<and> donations (threads s' 1) = [3]
         \<and> dona_elem_next_null (threads s' 2)
         \<and> thread_remove_donation 2 s' = Inr s')"
  using thread_remove_donation_idempotent [of donation_state 2]
  by (simp add: donation_state_def example_defs thread_remove_donation_def upd_thread_def
      list_remove_def Let_def)

section \<open>Load average\<close>

lemma coeff_59: "div_fixed_by_int (convert_to_fixed_point 59) 60 = 16110"
  by (simp add: div_fixed_by_int_def convert_to_fixed_point_def F_value wrap32_def c_div_def)

lemma coeff_1: "div_fixed_by_int (convert_to_fixed_point 1) 60 = 273"
  by (simp add: div_fixed_by_int_def convert_to_fixed_point_def F_value wrap32_def c_div_def)

lemma load_avg_product:
  assumes "0 \<le> l" and "l < 2147483648"
  shows "wrap32 (multiply_fixed_by_fixed 16110 l) = (16110 * l) div 16384"
    and "(16110 * l) div 16384 \<le> l" and "0 \<le> (16110 * l) div 16384"
proof -
  have w: "wrap64 (16110 * l) = 16110 * l"
    using assms by (intro wrap64_id) simp_all
  show le: "(16110 * l) div 16384 \<le> l"
    using assms by simp
  show nn: "0 \<le> (16110 * l) div 16384"
    using assms by simp
  have "wrap32 ((16110 * l) div 16384) = (16110 * l) div 16384"
    using assms le nn by (intro wrap32_id) simp_all
  then show "wrap32 (multiply_fixed_by_fixed 16110 l) = (16110 * l) div 16384"
    using assms by (simp add: multiply_fixed_by_fixed_def w F_value c_div_nonneg)
qed

lemma get_ready_threads_size_value:
  assumes "thread_mlfqs s" and "thread_current s = Inr cur"
    and "length (ready_list s) < 1048576"
  shows "get_ready_threads_size s = Inr (spec_ready_thread_count s)"
proof -
  have cur: "cur = running_thread s"
    using assms(2) by (simp add: thread_current_def Let_def split: if_splits)
  have "wrap32 (int (length (ready_list s))) = int (length (ready_list s))"
    using assms(3) by (intro wrap32_id) simp_all
  moreover have "wrap32 (int (length (ready_list s)) + 1) = int (length (ready_list s)) + 1"
    using assms(3) by (intro wrap32_id) simp_all
  ultimately show ?thesis
    using assms(1,2) cur
    by (simp add: get_ready_threads_size_def spec_ready_thread_count_def Let_def)
qed

lemma load_avg_error:
  fixes l r :: int
  shows "14 * real_of_int l / (15 * 16384) + real_of_int r / 15
           \<le> spec_load_avg l r - real_of_int ((16110 * l) div 16384 + 273 * r)"
    and "spec_load_avg l r - real_of_int ((16110 * l) div 16384 + 273 * r)
           < 1 + 14 * real_of_int l / (15 * 16384) + real_of_int r / 15"
proof -
  define q where "q = (16110 * l) div 16384"
  define m where "m = (16110 * l) mod 16384"
  have "16110 * l = 16384 * q + m"
    unfolding q_def m_def by (rule mult_div_mod_eq [symmetric])
  then have eq: "16110 * real_of_int l = 16384 * real_of_int q + real_of_int m"
    by (metis of_int_add of_int_mult of_int_numeral)
  have m0: "0 \<le> real_of_int m" and m1: "real_of_int m < 16384"
    by (simp_all add: m_def)
  show "14 * real_of_int l / (15 * 16384) + real_of_int r / 15
           \<le> spec_load_avg l r - real_of_int ((16110 * l) div 16384 + 273 * r)"
    unfolding q_def [symmetric] spec_load_avg_def using eq m0 by (simp add: field_simps)
  show "spec_load_avg l r - real_of_int ((16110 * l) div 16384 + 273 * r)
           < 1 + 14 * real_of_int l / (15 * 16384) + real_of_int r / 15"
    unfolding q_def [symmetric] spec_load_avg_def using eq m1 by (simp add: field_simps)
qed

lemma thread_calculate_load_avg_value:
  assumes mlfqs: "thread_mlfqs s" and cur: "thread_current s = Inr cur"
    and l0: "0 \<le> load_avg s" and l1: "load_avg s < 1073741824"
    and len: "length (ready_list s) < 1048576"
  shows "thread_calculate_load_avg s
           = Inr (s\<lparr>load_avg := (16110 * load_avg s) div 16384
                                    + 273 * spec_ready_thread_count s\<rparr>)"
proof -
  have r0: "0 \<le> spec_ready_thread_count s" and r1: "spec_ready_thread_count s \<le> 1048576"
    using len by (simp_all add: spec_ready_thread_count_def)
  have p: "wrap32 (multiply_fixed_by_fixed 16110 (load_avg s)) = (16110 * load_avg s) div 16384"
    and ple: "(16110 * load_avg s) div 16384 \<le> load_avg s"
    and p0: "0 \<le> (16110 * load_avg s) div 16384"
    using l0 l1 by (simp_all add: load_avg_product)
  have m: "multiply_fixed_by_int 273 (spec_ready_thread_count s)
           = 273 * spec_ready_thread_count s"
    unfolding multiply_fixed_by_int_def using r0 r1 by (intro wrap32_id) simp_all
  have a: "add_fixed_to_fixed ((16110 * load_avg s) div 16384)
             (273 * spec_ready_thread_count s)
           = (16110 * load_avg s) div 16384 + 273 * spec_ready_thread_count s"
    unfolding add_fixed_to_fixed_def using r0 r1 ple p0 l1 by (intro wrap32_id) linarith+
  have "thread_calculate_load_avg s
        = Inr (s\<lparr>load_avg :=
                 add_fixed_to_fixed (wrap32 (multiply_fixed_by_fixed 16110 (load_avg s)))
                   (multiply_fixed_by_int 273 (spec_ready_thread_count s))\<rparr>)"
    using mlfqs get_ready_threads_size_value [OF mlfqs cur len]
    by (simp add: thread_calculate_load_avg_def Let_def coeff_59 coeff_1)
  then show ?thesis
    by (simp only: p m a)
qed

text \<open>
  C6 (as amended).  In MLFQS mode, with a valid running thread, a load average in
  \<open>[0, 2^30)\<close> and fewer than \<open>2^20\<close> ready threads, each call to
  \<open>thread_calculate_load_avg\<close> replaces \<open>load_avg\<close> by the 17.14 fixed-point evaluation
  of \<open>(59/60) * load_avg + (1/60) * ready_thread_count\<close>, which is
  \<open>16110 * load_avg div 2^14 + 273 * ready_thread_count\<close> (16110 and 273 are the
  truncated fixed-point values of 59/60 and 1/60), where \<open>ready_thread_count\<close> is the
  size of \<open>ready_list\<close> plus one if the running thread is not the idle thread.  The
  stored value is below the exact rational recurrence by at least
  \<open>14 * load_avg / (15 * 2^14) + ready_thread_count / 15\<close> ulp and by less than one ulp
  more than that.
\<close>

theorem thread_calculate_load_avg_recurrence:
  assumes mlfqs: "thread_mlfqs s" and cur: "thread_current s = Inr cur"
    and l0: "0 \<le> load_avg s" and l1: "load_avg s < 1073741824"
    and len: "length (ready_list s) < 1048576"
  shows "\<exists>s'. thread_calculate_load_avg s = Inr s'
           \<and> s' = s\<lparr>load_avg := (16110 * load_avg s) div 16384
                                    + 273 * spec_ready_thread_count s\<rparr>
           \<and> 14 * real_of_int (load_avg s) / (15 * 16384)
               + real_of_int (spec_ready_thread_count s) / 15
               \<le> spec_load_avg (load_avg s) (spec_ready_thread_count s)
                   - real_of_int (load_avg s')
           \<and> spec_load_avg (load_avg s) (spec_ready_thread_count s)
                 - real_of_int (load_avg s')
               < 1 + 14 * real_of_int (load_avg s) / (15 * 16384)
                   + real_of_int (spec_ready_thread_count s) / 15"
  using thread_calculate_load_avg_value [OF assms]
    load_avg_error [of "load_avg s" "spec_ready_thread_count s"]
  by simp

theorem thread_calculate_load_avg_recurrence_witness:
  "thread_mlfqs steady_state \<and> thread_current steady_state = Inr 1
   \<and> 0 \<le> load_avg steady_state \<and> load_avg steady_state < 1073741824
   \<and> length (ready_list steady_state) < 1048576
   \<and> (\<exists>s'. thread_calculate_load_avg steady_state = Inr s' \<and> load_avg s' = 32766)"
  using thread_calculate_load_avg_recurrence [of steady_state 1]
  by (simp add: steady_state_def mlfqs_state_def example_defs thread_current_def
      spec_ready_thread_count_def)

text \<open>
  C6 as stated fails: with a load average of 2.0 and two threads ready to run, the exact
  recurrence stays at 2.0 (32768 ulp) and the code stores 32766, two ulp below.
\<close>

theorem thread_calculate_load_avg_counterexample:
  "thread_calculate_load_avg steady_state = Inr (steady_state\<lparr>load_avg := 32766\<rparr>)
   \<and> spec_load_avg (load_avg steady_state) (spec_ready_thread_count steady_state) = 32768
   \<and> \<not> \<bar>spec_load_avg (load_avg steady_state) (spec_ready_thread_count steady_state)
          - 32766\<bar> \<le> 1"
proof -
  have l: "load_avg steady_state = 32768"
    by (simp add: steady_state_def)
  have r: "spec_ready_thread_count steady_state = 2"
    by (simp add: steady_state_def mlfqs_state_def example_defs spec_ready_thread_count_def)
  have m: "thread_mlfqs steady_state"
    by (simp add: steady_state_def mlfqs_state_def example_defs)
  have c: "thread_current steady_state = Inr 1"
    by (simp add: steady_state_def mlfqs_state_def example_defs thread_current_def)
  have n: "length (ready_list steady_state) < 1048576"
    by (simp add: steady_state_def mlfqs_state_def example_defs)
  have "thread_calculate_load_avg steady_state
        = Inr (steady_state\<lparr>load_avg := (16110 * load_avg steady_state) div 16384
                 + 273 * spec_ready_thread_count steady_state\<rparr>)"
    using m c _ _ n by (rule thread_calculate_load_avg_value) (simp_all add: l)
  then have "thread_calculate_load_avg steady_state
        = Inr (steady_state\<lparr>load_avg := 32766\<rparr>)"
    by (simp add: l r)
  moreover have "spec_load_avg (load_avg steady_state) (spec_ready_thread_count steady_state)
                 = 32768"
    by (simp add: l r spec_load_avg_def)
  ultimately show ?thesis by simp
qed

section \<open>Frame facts of the scheduler\<close>

lemma foreach_loop_preserves:
  assumes step: "\<And>t s s'. func t s = Inr s' \<Longrightarrow> g s' = g s"
  shows "foreach_loop func ts s = Inr s' \<Longrightarrow> g s' = g s"
proof (induction ts arbitrary: s)
  case Nil
  then show ?case by simp
next
  case (Cons t ts)
  from Cons.prems obtain s1 where f: "func t s = Inr s1" and l: "foreach_loop func ts s1 = Inr s'"
    by (auto split: sum.splits)
  from step [OF f] Cons.IH [OF l] show ?case by simp
qed

lemma thread_calculate_bsd_priority_frame:
  assumes "thread_calculate_bsd_priority t s = Inr s'"
  shows "\<exists>p. s' = upd_thread t (\<lambda>th. th\<lparr>priority := p\<rparr>) s"
  using assms by (auto simp: thread_calculate_bsd_priority_def Let_def split: if_splits)

lemma thread_current_running:
  "thread_current s = Inr cur \<Longrightarrow>
     cur = running_thread s \<and> is_thread s cur \<and> status (threads s cur) = THREAD_RUNNING"
  by (simp add: thread_current_def Let_def split: if_splits)

section \<open>Setting nice\<close>

lemma c_div_4_bounds:
  assumes "- 2147483648 \<le> a" and "a < 2147483648"
  shows "- 536870912 \<le> c_div a 4" and "c_div a 4 \<le> 536870912"
  using assms by (auto simp: c_div_def)

lemma clamp_trunc_floor:
  "(if c_div x 16384 < PRI_MIN then PRI_MIN
    else if c_div x 16384 > PRI_MAX then PRI_MAX else c_div x 16384)
   = max PRI_MIN (min PRI_MAX (x div 16384))"
proof (cases "0 \<le> x")
  case True
  then show ?thesis
    by (simp add: c_div_nonneg PRI_MIN_def PRI_MAX_def max_def min_def)
next
  case False
  then have neg: "x < 0" by simp
  then have "x div 16384 < 0" by simp
  moreover have "c_div x 16384 \<le> 0"
    using neg by (simp add: c_div_neg)
  ultimately show ?thesis
    by (simp add: PRI_MIN_def PRI_MAX_def max_def min_def)
qed

lemma bsd_priority_formula:
  assumes mlfqs: "thread_mlfqs s" and live: "is_thread s t"
    and rc: "- 2147483648 \<le> recent_cpu (threads s t)" "recent_cpu (threads s t) < 2147483648"
    and n: "NICE_MIN \<le> nice (threads s t)" "nice (threads s t) \<le> NICE_MAX"
  shows "thread_calculate_bsd_priority t s
         = Inr (upd_thread t (\<lambda>th. th\<lparr>priority :=
                  spec_bsd_priority (recent_cpu (threads s t)) (nice (threads s t))\<rparr>) s)"
proof -
  define r where "r = recent_cpu (threads s t)"
  define k where "k = nice (threads s t)"
  define q where "q = c_div r 4"
  have k: "- 20 \<le> k" "k \<le> 20"
    using n by (simp_all add: k_def NICE_MIN_def NICE_MAX_def)
  have q: "- 536870912 \<le> q" "q \<le> 536870912"
    using c_div_4_bounds [of r] rc by (simp_all add: q_def r_def)
  have p: "convert_to_fixed_point PRI_MAX = 1032192"
    by (simp add: convert_to_fixed_point_def PRI_MAX_def F_value wrap32_def)
  have w2: "wrap32 (k * 2) = k * 2"
    using k by (intro wrap32_id) simp_all
  have tn: "convert_to_fixed_point (k * 2) = k * 32768"
    unfolding convert_to_fixed_point_def F_value using k
    by (subst wrap32_id) simp_all
  have r1: "fixed_subtract_fixed 1032192 q = 1032192 - q"
    unfolding fixed_subtract_fixed_def using q by (intro wrap32_id) simp_all
  have r2: "fixed_subtract_fixed (1032192 - q) (k * 32768) = 1032192 - q - k * 32768"
    unfolding fixed_subtract_fixed_def using q k by (intro wrap32_id) simp_all
  have x: "PRI_MAX * 16384 - c_div r 4 - 2 * k * 16384 = 1032192 - q - k * 32768"
    by (simp add: PRI_MAX_def q_def)
  have calc: "thread_calculate_bsd_priority t s
        = Inr (upd_thread t (\<lambda>th. th\<lparr>priority :=
             (if c_div (1032192 - q - k * 32768) 16384 < PRI_MIN then PRI_MIN
              else if c_div (1032192 - q - k * 32768) 16384 > PRI_MAX then PRI_MAX
              else c_div (1032192 - q - k * 32768) 16384)\<rparr>) s)"
    using mlfqs live
    by (simp add: thread_calculate_bsd_priority_def Let_def r_def [symmetric]
        k_def [symmetric] div_fixed_by_int_def q_def [symmetric] p w2 tn r1 r2
        convert_to_int_round_down_def F_value)
  have sp: "spec_bsd_priority r k
            = max PRI_MIN (min PRI_MAX ((1032192 - q - k * 32768) div 16384))"
    by (simp only: spec_bsd_priority_def F_value x)
  from calc have "thread_calculate_bsd_priority t s
        = Inr (upd_thread t (\<lambda>th. th\<lparr>priority := spec_bsd_priority r k\<rparr>) s)"
    by (simp only: clamp_trunc_floor sp)
  then show ?thesis
    by (simp only: r_def k_def)
qed


lemma erase_priority_fields:
  assumes "erase_priority s' = erase_priority s"
  shows "running_thread s' = running_thread s" and "ready_list s' = ready_list s"
    and "all_list s' = all_list s" and "intr_level s' = intr_level s"
    and "thread_mlfqs s' = thread_mlfqs s" and "initial_thread s' = initial_thread s"
    and "status (threads s' a) = status (threads s a)"
    and "magic (threads s' a) = magic (threads s a)"
    and "nice (threads s' a) = nice (threads s a)"
    and "is_thread s' a = is_thread s a"
proof -
  have sel: "f (erase_priority s') = f (erase_priority s)" for f :: "kernel \<Rightarrow> 'b"
    using assms by simp
  show "running_thread s' = running_thread s"
    using sel [of running_thread] by (simp add: erase_priority_def)
  show "ready_list s' = ready_list s"
    using sel [of ready_list] by (simp add: erase_priority_def)
  show "all_list s' = all_list s"
    using sel [of all_list] by (simp add: erase_priority_def)
  show "intr_level s' = intr_level s"
    using sel [of intr_level] by (simp add: erase_priority_def)
  show "thread_mlfqs s' = thread_mlfqs s"
    using sel [of thread_mlfqs] by (simp add: erase_priority_def)
  show "initial_thread s' = initial_thread s"
    using sel [of initial_thread] by (simp add: erase_priority_def)
  have th: "(threads s' a)\<lparr>priority := 0\<rparr> = (threads s a)\<lparr>priority := 0\<rparr>"
    using sel [of "\<lambda>k. threads k a"] by (simp add: erase_priority_def)
  have selt: "g ((threads s' a)\<lparr>priority := 0\<rparr>) = g ((threads s a)\<lparr>priority := 0\<rparr>)"
    for g :: "thread \<Rightarrow> 'c"
    using th by simp
  show "status (threads s' a) = status (threads s a)" using selt [of status] by simp
  show m: "magic (threads s' a) = magic (threads s a)" using selt [of magic] by simp
  show "nice (threads s' a) = nice (threads s a)" using selt [of nice] by simp
  show "is_thread s' a = is_thread s a" using m by (simp add: is_thread_def)
qed

lemma bsd_priority_erase:
  assumes "thread_calculate_bsd_priority t s = Inr s'"
  shows "erase_priority s' = erase_priority s"
  using thread_calculate_bsd_priority_frame [OF assms]
  by (auto simp: erase_priority_def upd_thread_def fun_eq_iff)

lemma foreach_bsd_erase:
  assumes "foreach_loop thread_calculate_bsd_priority ts s = Inr s'"
  shows "erase_priority s' = erase_priority s"
  using assms by (rule foreach_loop_preserves [rotated]) (rule bsd_priority_erase)

lemma foreach_bsd_returns:
  assumes "thread_mlfqs s" and "\<forall>a\<in>set ts. is_thread s a"
  shows "\<exists>s'. foreach_loop thread_calculate_bsd_priority ts s = Inr s'"
  using assms
proof (induction ts arbitrary: s)
  case Nil
  then show ?case by simp
next
  case (Cons t ts)
  from Cons.prems have "thread_mlfqs s" and "is_thread s t" by simp_all
  from bsd_priority_clamped [OF this] obtain s1
    where s1: "thread_calculate_bsd_priority t s = Inr s1" by blast
  note e = erase_priority_fields [OF bsd_priority_erase [OF s1]]
  from Cons.prems e have "thread_mlfqs s1" and "\<forall>a\<in>set ts. is_thread s1 a"
    by simp_all
  from Cons.IH [OF this] s1 show ?case by simp
qed

lemma schedule_returns:
  assumes off: "intr_level s = INTR_OFF"
    and st: "status (threads s (running_thread s)) = THREAD_READY"
    and rl: "ready_list s = x # ys"
    and lx: "is_thread s x"
    and ne: "x \<noteq> running_thread s"
    and al: "thread_mlfqs s \<longrightarrow> (\<forall>a\<in>set (all_list s). is_thread s a)"
  shows "\<exists>s'. schedule s = Inr s' \<and> running_thread s' = x
           \<and> status (threads s' (running_thread s)) = THREAD_READY
           \<and> (\<forall>a. nice (threads s' a) = nice (threads s a))"
proof -
  define s1 where "s1 = s\<lparr>ready_list := ys\<rparr>"
  have n: "next_thread_to_run s = (x, s1)"
    by (simp add: next_thread_to_run_def rl s1_def)
  have f1: "intr_level s1 = INTR_OFF" "status (threads s1 (running_thread s)) = THREAD_READY"
    "is_thread s1 x" "thread_mlfqs s1 = thread_mlfqs s" "all_list s1 = all_list s"
    using off st lx by (simp_all add: s1_def is_thread_def)
  obtain s3 where m: "(if thread_mlfqs s1
         then case thread_foreach thread_calculate_bsd_priority s1 of
                Inl e \<Rightarrow> Inl e
              | Inr s2 \<Rightarrow> Inr (s2\<lparr>ready_list :=
                         list_sort (thread_compare_priority s2) (ready_list s2)\<rparr>)
         else Inr s1) = Inr s3"
    and f3: "intr_level s3 = INTR_OFF" "status (threads s3 (running_thread s)) = THREAD_READY"
      "\<forall>a. nice (threads s3 a) = nice (threads s a)"
      "initial_thread s3 = initial_thread s"
  proof (cases "thread_mlfqs s1")
    case True
    with al f1 have "\<forall>a\<in>set (all_list s1). is_thread s1 a"
      by (simp add: s1_def is_thread_def)
    from foreach_bsd_returns [OF True this] obtain s2
      where l: "foreach_loop thread_calculate_bsd_priority (all_list s1) s1 = Inr s2" ..
    note e = erase_priority_fields [OF foreach_bsd_erase [OF l]]
    have "thread_foreach thread_calculate_bsd_priority s1 = Inr s2"
      using l f1 by (simp add: thread_foreach_def)
    with True e f1 that [of "s2\<lparr>ready_list :=
        list_sort (thread_compare_priority s2) (ready_list s2)\<rparr>"]
    show ?thesis by (simp add: s1_def)
  next
    case False
    with f1 that [of s1] show ?thesis by (simp add: s1_def)
  qed
  define s5 where "s5 = (upd_thread x (\<lambda>th. th\<lparr>status := THREAD_RUNNING\<rparr>)
                           (s3\<lparr>running_thread := x\<rparr>))\<lparr>thread_ticks := 0\<rparr>"
  have tail: "thread_schedule_tail (running_thread s) (s3\<lparr>running_thread := x\<rparr>) = Inr s5"
    using f3 ne by (simp add: thread_schedule_tail_def Let_def s5_def upd_thread_def)
  have "schedule s = Inr s5"
    unfolding schedule_def Let_def n prod.case
    using f1 st m ne tail by (simp add: switch_threads_def)
  moreover have "running_thread s5 = x"
    by (simp add: s5_def upd_thread_def)
  moreover have "status (threads s5 (running_thread s)) = THREAD_READY"
    using f3 ne by (simp add: s5_def upd_thread_def)
  moreover have "\<forall>a. nice (threads s5 a) = nice (threads s a)"
    using f3 by (simp add: s5_def upd_thread_def)
  ultimately show ?thesis by blast
qed

lemma thread_yield_returns:
  assumes c: "thread_current s = Inr cur"
    and nic: "\<not> intr_context s"
    and rl: "ready_list s = x # xs"
    and gt: "priority (threads s x) > priority (threads s cur)"
    and lx: "is_thread s x"
    and al: "thread_mlfqs s \<longrightarrow> (\<forall>a\<in>set (all_list s). is_thread s a)"
  shows "\<exists>s'. thread_yield s = Inr s' \<and> running_thread s' = x
           \<and> status (threads s' cur) = THREAD_READY
           \<and> (\<forall>a. nice (threads s' a) = nice (threads s a))"
proof -
  from thread_current_running [OF c] have cur: "running_thread s = cur" by simp
  from gt have ne: "x \<noteq> cur" by auto
  have nlt: "\<not> thread_compare_priority (s\<lparr>intr_level := INTR_OFF\<rparr>) cur x"
    using gt by (simp add: thread_compare_priority_def)
  define s3 where "s3 = upd_thread cur (\<lambda>th. th\<lparr>status := THREAD_READY\<rparr>)
      (if cur \<noteq> idle_thread s
       then s\<lparr>intr_level := INTR_OFF,
              ready_list := list_insert_ordered
                 (thread_compare_priority (s\<lparr>intr_level := INTR_OFF\<rparr>)) cur (ready_list s)\<rparr>
       else s\<lparr>intr_level := INTR_OFF\<rparr>)"
  have y: "thread_yield s
           = (case schedule s3 of Inl e \<Rightarrow> Inl e
              | Inr s4 \<Rightarrow> Inr (if running_thread s4 = cur
                               then intr_set_level (intr_level s) s4 else s4))"
    using c nic by (simp add: thread_yield_def s3_def intr_defs Let_def)
  have r3: "\<exists>ys. ready_list s3 = x # ys"
    using rl nlt by (simp add: s3_def upd_thread_def)
  then obtain ys where ys: "ready_list s3 = x # ys" ..
  have f3: "intr_level s3 = INTR_OFF" "running_thread s3 = cur"
    "status (threads s3 (running_thread s3)) = THREAD_READY"
    "is_thread s3 x" "thread_mlfqs s3 = thread_mlfqs s" "all_list s3 = all_list s"
    "\<forall>a. is_thread s3 a = is_thread s a" "\<forall>a. nice (threads s3 a) = nice (threads s a)"
    using cur lx ne by (auto simp: s3_def upd_thread_def is_thread_def)
  have al3: "thread_mlfqs s3 \<longrightarrow> (\<forall>a\<in>set (all_list s3). is_thread s3 a)"
    using al f3 by simp
  have ne3: "x \<noteq> running_thread s3" using ne f3 by simp
  from schedule_returns [OF f3(1) f3(3) ys f3(4) ne3 al3] obtain s4
    where sch: "schedule s3 = Inr s4" and run: "running_thread s4 = x"
      and st: "status (threads s4 (running_thread s3)) = THREAD_READY"
      and ni: "\<forall>a. nice (threads s4 a) = nice (threads s3 a)"
    by blast
  from y sch run ne have "thread_yield s = Inr s4" by simp
  with run st ni f3 show ?thesis by simp
qed


lemma front_is_highest:
  assumes "sorted_wrt (\<lambda>a b. f a \<ge> f b) (x # xs)"
  shows "(\<exists>a\<in>set (x # xs). f a > (p::int)) \<longleftrightarrow> f x > p"
  using assms by fastforce

text \<open>
  C5 (as amended).  In MLFQS mode, with a valid running thread \<open>t\<close> whose \<open>recent_cpu\<close>
  is a 32-bit value, a ready queue sorted by descending priority whose members are live
  and \<open>THREAD_READY\<close>, and every thread of \<open>all_list\<close> live: for every argument in
  \<open>[NICE_MIN, NICE_MAX]\<close>, \<open>thread_set_nice\<close> stores the argument unchanged as the
  \<open>nice\<close> of \<open>t\<close> and sets the priority of \<open>t\<close> to the MLFQS formula
  \<open>clamp(PRI_MAX - recent_cpu/4 - 2*nice, PRI_MIN, PRI_MAX)\<close>; the running thread is not
  in the ready queue, so the queue stays as it is; and it yields exactly when some ready
  thread now has a higher priority: with none, it returns that state; in interrupt
  context it requests a yield on return; in thread context it returns with the front of
  the ready queue, a ready thread of highest priority, running and \<open>t\<close> ready.  For
  every argument outside \<open>[NICE_MIN, NICE_MAX]\<close> nothing is clamped: the assertion
  fails.
\<close>

theorem thread_set_nice_in_range:
  assumes mlfqs: "thread_mlfqs s"
    and cur: "thread_current s = Inr t"
    and rc: "- 2147483648 \<le> recent_cpu (threads s t)" "recent_cpu (threads s t) < 2147483648"
    and srt: "sorted_wrt (\<lambda>a b. priority (threads s a) \<ge> priority (threads s b))
                (ready_list s)"
    and rdy: "\<forall>a\<in>set (ready_list s). is_thread s a \<and> status (threads s a) = THREAD_READY"
    and al: "\<forall>a\<in>set (all_list s). is_thread s a"
  shows "(NICE_MIN \<le> n \<and> n \<le> NICE_MAX \<longrightarrow>
           (let p = spec_bsd_priority (recent_cpu (threads s t)) n;
                s1 = upd_thread t (\<lambda>th. th\<lparr>nice := n, priority := p\<rparr>) s;
                higher = (\<exists>a\<in>set (ready_list s). priority (threads s a) > p)
            in (\<not> higher \<longrightarrow> thread_set_nice n s = Inr s1)
             \<and> (higher \<and> intr_context s \<longrightarrow>
                   thread_set_nice n s = Inr (intr_yield_on_return s1))
             \<and> (higher \<and> \<not> intr_context s \<longrightarrow>
                   (\<exists>s'. thread_set_nice n s = Inr s'
                       \<and> running_thread s' = hd (ready_list s)
                       \<and> (\<forall>a\<in>set (ready_list s).
                             priority (threads s a)
                               \<le> priority (threads s (running_thread s')))
                       \<and> status (threads s' t) = THREAD_READY
                       \<and> nice (threads s' t) = n))))
       \<and> (\<not> (NICE_MIN \<le> n \<and> n \<le> NICE_MAX) \<longrightarrow>
            thread_set_nice n s = Inl Assertion_failed)"
proof (intro conjI impI)
  assume "\<not> (NICE_MIN \<le> n \<and> n \<le> NICE_MAX)"
  then show "thread_set_nice n s = Inl Assertion_failed"
    by (auto simp: thread_set_nice_def)
next
  assume range: "NICE_MIN \<le> n \<and> n \<le> NICE_MAX"
  define p where "p = spec_bsd_priority (recent_cpu (threads s t)) n"
  define s1 where "s1 = upd_thread t (\<lambda>th. th\<lparr>nice := n, priority := p\<rparr>) s"
  define higher where "higher \<longleftrightarrow> (\<exists>a\<in>set (ready_list s). priority (threads s a) > p)"
  from thread_current_running [OF cur]
  have run: "running_thread s = t" and live: "is_thread s t"
    and st: "status (threads s t) = THREAD_RUNNING"
    by blast+
  have notin: "t \<notin> set (ready_list s)"
    using rdy st by auto
  define s0 where "s0 = upd_thread t (\<lambda>th. th\<lparr>nice := n\<rparr>) s"
  have "thread_calculate_bsd_priority t s0
        = Inr (upd_thread t (\<lambda>th. th\<lparr>priority :=
                 spec_bsd_priority (recent_cpu (threads s0 t)) (nice (threads s0 t))\<rparr>) s0)"
    using mlfqs live rc range
    by (intro bsd_priority_formula) (simp_all add: s0_def upd_thread_def is_thread_def)
  also have "upd_thread t (\<lambda>th. th\<lparr>priority :=
                 spec_bsd_priority (recent_cpu (threads s0 t)) (nice (threads s0 t))\<rparr>) s0 = s1"
    by (simp add: s0_def s1_def p_def upd_thread_def)
  finally have calc: "thread_calculate_bsd_priority t s0 = Inr s1" .
  have f1: "running_thread s1 = t" "is_thread s1 t" "status (threads s1 t) = THREAD_RUNNING"
    "priority (threads s1 t) = p" "nice (threads s1 t) = n" "ready_list s1 = ready_list s"
    "all_list s1 = all_list s" "thread_mlfqs s1" "intr_context s1 = intr_context s"
    using run live st mlfqs by (simp_all add: s1_def upd_thread_def is_thread_def)
  have other: "priority (threads s1 a) = priority (threads s a)" if "a \<noteq> t" for a
    using that by (simp add: s1_def upd_thread_def)
  have live1: "is_thread s1 a = is_thread s a" for a
    by (simp add: s1_def upd_thread_def is_thread_def)
  have reins: "thread_reinsert_ready_list t s1 = Inr s1"
    using f1 by (simp add: thread_reinsert_ready_list_def)
  have set: "thread_set_nice n s = thread_max_yield s1"
    using mlfqs range cur calc reins
    by (simp add: thread_set_nice_def s0_def [symmetric] Let_def)
  have cur1: "thread_current s1 = Inr t"
    using f1 by (simp add: thread_current_def)
  have my: "thread_max_yield s1 =
               (if thread_get_max_priority s1 > p
                then if intr_context s then Inr (intr_yield_on_return s1)
                     else thread_yield s1
                else Inr s1)"
    using cur1 f1 by (simp add: thread_max_yield_def thread_get_priority_def)
  have p0: "PRI_MIN \<le> p"
    by (simp add: p_def spec_bsd_priority_def)
  have hi: "higher \<longleftrightarrow> thread_get_max_priority s1 > p"
  proof (cases "ready_list s")
    case Nil
    with p0 f1 show ?thesis
      by (simp add: higher_def thread_get_max_priority_def)
  next
    case (Cons x xs)
    with notin have "x \<noteq> t" by auto
    with Cons f1 front_is_highest [OF srt [unfolded Cons], of p] show ?thesis
      by (simp add: higher_def thread_get_max_priority_def other)
  qed
  have c1: "\<not> higher \<longrightarrow> thread_set_nice n s = Inr s1"
    using set my hi by simp
  have c2: "higher \<and> intr_context s \<longrightarrow> thread_set_nice n s = Inr (intr_yield_on_return s1)"
    using set my hi by simp
  have c3: "higher \<and> \<not> intr_context s \<longrightarrow>
              (\<exists>s'. thread_set_nice n s = Inr s'
                  \<and> running_thread s' = hd (ready_list s)
                  \<and> (\<forall>a\<in>set (ready_list s).
                        priority (threads s a) \<le> priority (threads s (running_thread s')))
                  \<and> status (threads s' t) = THREAD_READY
                  \<and> nice (threads s' t) = n)"
  proof
    assume h: "higher \<and> \<not> intr_context s"
    then obtain x xs where rl: "ready_list s = x # xs"
      by (cases "ready_list s") (auto simp: higher_def)
    with notin have xt: "x \<noteq> t" by auto
    from h rl srt have gtx: "priority (threads s x) > p"
      using front_is_highest [of "\<lambda>a. priority (threads s a)" x xs p]
      by (simp add: higher_def)
    have top: "\<forall>a\<in>set (ready_list s). priority (threads s a) \<le> priority (threads s x)"
      using srt rl by auto
    have "\<exists>s'. thread_yield s1 = Inr s' \<and> running_thread s' = x
           \<and> status (threads s' t) = THREAD_READY
           \<and> (\<forall>a. nice (threads s' a) = nice (threads s1 a))"
    proof (rule thread_yield_returns [OF cur1])
      show "\<not> intr_context s1" using h f1 by simp
      show "ready_list s1 = x # xs" using rl f1 by simp
      show "priority (threads s1 t) < priority (threads s1 x)"
        using gtx xt f1 by (simp add: other)
      show "is_thread s1 x" using rdy rl by (simp add: live1)
      show "thread_mlfqs s1 \<longrightarrow> (\<forall>a\<in>set (all_list s1). is_thread s1 a)"
        using al f1 by (simp add: live1)
    qed
    then obtain s' where y: "thread_yield s1 = Inr s'" and r: "running_thread s' = x"
      and st': "status (threads s' t) = THREAD_READY"
      and ni: "\<forall>a. nice (threads s' a) = nice (threads s1 a)"
      by blast
    from set my hi h y have "thread_set_nice n s = Inr s'" by simp
    with r st' ni f1 rl top show "\<exists>s'. thread_set_nice n s = Inr s'
                  \<and> running_thread s' = hd (ready_list s)
                  \<and> (\<forall>a\<in>set (ready_list s).
                        priority (threads s a) \<le> priority (threads s (running_thread s')))
                  \<and> status (threads s' t) = THREAD_READY
                  \<and> nice (threads s' t) = n"
      by auto
  qed
  from c1 c2 c3 show "let p = spec_bsd_priority (recent_cpu (threads s t)) n;
                s1 = upd_thread t (\<lambda>th. th\<lparr>nice := n, priority := p\<rparr>) s;
                higher = (\<exists>a\<in>set (ready_list s). priority (threads s a) > p)
            in (\<not> higher \<longrightarrow> thread_set_nice n s = Inr s1)
             \<and> (higher \<and> intr_context s \<longrightarrow>
                   thread_set_nice n s = Inr (intr_yield_on_return s1))
             \<and> (higher \<and> \<not> intr_context s \<longrightarrow>
                   (\<exists>s'. thread_set_nice n s = Inr s'
                       \<and> running_thread s' = hd (ready_list s)
                       \<and> (\<forall>a\<in>set (ready_list s).
                             priority (threads s a)
                               \<le> priority (threads s (running_thread s')))
                       \<and> status (threads s' t) = THREAD_READY
                       \<and> nice (threads s' t) = n))"
    unfolding Let_def p_def [symmetric] s1_def [symmetric] higher_def [symmetric]
    by blast
qed


theorem thread_set_nice_in_range_witness:
  "thread_mlfqs mlfqs_thread_state \<and> thread_current mlfqs_thread_state = Inr 1
   \<and> - 2147483648 \<le> recent_cpu (threads mlfqs_thread_state 1)
   \<and> recent_cpu (threads mlfqs_thread_state 1) < 2147483648
   \<and> sorted_wrt (\<lambda>a b. priority (threads mlfqs_thread_state a)
                         \<ge> priority (threads mlfqs_thread_state b))
        (ready_list mlfqs_thread_state)
   \<and> ready_list mlfqs_thread_state = [2] \<and> all_list mlfqs_thread_state = [1, 2]
   \<and> is_thread mlfqs_thread_state 1 \<and> is_thread mlfqs_thread_state 2
   \<and> status (threads mlfqs_thread_state 2) = THREAD_READY
   \<and> NICE_MIN \<le> 20 \<and> 20 \<le> NICE_MAX
   \<and> spec_bsd_priority (recent_cpu (threads mlfqs_thread_state 1)) 20 = 23
   \<and> (\<exists>s'. thread_set_nice 20 mlfqs_thread_state = Inr s'
         \<and> running_thread s' = 2 \<and> status (threads s' 1) = THREAD_READY
         \<and> nice (threads s' 1) = 20)"
proof -
  let ?S = mlfqs_thread_state
  have h1: "thread_mlfqs ?S" and h2: "thread_current ?S = Inr 1"
    and h3: "- 2147483648 \<le> recent_cpu (threads ?S 1)"
    and h4: "recent_cpu (threads ?S 1) < 2147483648"
    and h5: "sorted_wrt (\<lambda>a b. priority (threads ?S a) \<ge> priority (threads ?S b))
               (ready_list ?S)"
    and h6: "\<forall>a\<in>set (ready_list ?S). is_thread ?S a \<and> status (threads ?S a) = THREAD_READY"
    and h7: "\<forall>a\<in>set (all_list ?S). is_thread ?S a"
    by (simp_all add: mlfqs_thread_state_def mlfqs_state_def example_defs thread_current_def)
  have r: "NICE_MIN \<le> (20::int) \<and> (20::int) \<le> NICE_MAX"
    by (simp add: NICE_MIN_def NICE_MAX_def)
  have p: "spec_bsd_priority (recent_cpu (threads ?S 1)) 20 = 23"
    by (simp add: mlfqs_thread_state_def mlfqs_state_def example_defs spec_bsd_priority_def
        PRI_MIN_def PRI_MAX_def F_value c_div_def)
  have hi: "\<exists>a\<in>set (ready_list ?S). priority (threads ?S a) > 23"
    and ni: "\<not> intr_context ?S" and hd: "hd (ready_list ?S) = 2"
    by (simp_all add: mlfqs_thread_state_def mlfqs_state_def example_defs)
  from thread_set_nice_in_range [OF h1 h2 h3 h4 h5 h6 h7, of 20] r
  have "\<exists>s'. thread_set_nice 20 ?S = Inr s' \<and> running_thread s' = hd (ready_list ?S)
          \<and> status (threads s' 1) = THREAD_READY \<and> nice (threads s' 1) = 20"
    unfolding Let_def p using hi ni by blast
  moreover have "ready_list ?S = [2]" and "all_list ?S = [1, 2]"
    and "is_thread ?S 1" and "is_thread ?S 2" and "status (threads ?S 2) = THREAD_READY"
    by (simp_all add: mlfqs_thread_state_def mlfqs_state_def example_defs)
  ultimately show ?thesis
    using h1 h2 h3 h4 h5 r p hd by simp
qed

text \<open>
  C5 as stated fails: the arguments 21 and -21 are not clamped to 20 and -20, they stop
  the kernel.
\<close>

theorem thread_set_nice_counterexample:
  "thread_set_nice 21 mlfqs_state = Inl Assertion_failed
   \<and> thread_set_nice (- 21) mlfqs_state = Inl Assertion_failed"
  by (simp add: thread_set_nice_def mlfqs_state_def example_kernel_def NICE_MIN_def
      NICE_MAX_def)


section \<open>The tick hook\<close>

lemma thread_calculate_recent_cpu_frame:
  assumes "thread_calculate_recent_cpu t s = Inr s'"
  shows "\<exists>r. s' = upd_thread t (\<lambda>th. th\<lparr>recent_cpu := r\<rparr>) s"
  using assms by (auto simp: thread_calculate_recent_cpu_def Let_def split: if_splits)

lemma thread_calculate_load_avg_frame:
  assumes "thread_calculate_load_avg s = Inr s'"
  shows "\<exists>l. s' = s\<lparr>load_avg := l\<rparr>"
  using assms
  by (auto simp: thread_calculate_load_avg_def Let_def split: if_splits sum.splits)

lemma thread_recalculate_bsd_variables_frame:
  assumes "thread_recalculate_bsd_variables freq s = Inr s'"
  shows "ready_list s' = ready_list s \<and> (\<forall>a. priority (threads s' a) = priority (threads s a))"
proof -
  let ?g = "\<lambda>s. (ready_list s, \<lambda>a. priority (threads s a))"
  have step: "?g s2 = ?g s1" if "thread_calculate_recent_cpu t s1 = Inr s2" for t s1 s2
    using thread_calculate_recent_cpu_frame [OF that] by (auto simp: upd_thread_def)
  have loop: "?g s2 = ?g s1" if "thread_foreach thread_calculate_recent_cpu s1 = Inr s2" for s1 s2
  proof -
    from that have "foreach_loop thread_calculate_recent_cpu (all_list s1) s1 = Inr s2"
      by (simp add: thread_foreach_def split: if_splits)
    then show ?thesis
      by (rule foreach_loop_preserves [where g = ?g, rotated]) (rule step)
  qed
  have la: "?g s2 = ?g s1" if "thread_calculate_load_avg s1 = Inr s2" for s1 s2
    using thread_calculate_load_avg_frame [OF that] by auto
  from assms obtain t where t: "thread_current s = Inr t"
    by (auto simp: thread_recalculate_bsd_variables_def split: if_splits sum.splits)
  define s1 where "s1 = (if t \<noteq> idle_thread s
      then upd_thread t (\<lambda>th. th\<lparr>recent_cpu := add_fixed_to_int (recent_cpu th) 1\<rparr>) s
      else s)"
  have rest: "s' = s1 \<or> (\<exists>s2. thread_calculate_load_avg s1 = Inr s2
                  \<and> thread_foreach thread_calculate_recent_cpu s2 = Inr s')"
    using assms t
    by (auto simp: thread_recalculate_bsd_variables_def s1_def Let_def
        split: if_splits sum.splits)
  have g1: "?g s1 = ?g s" by (auto simp: s1_def upd_thread_def)
  from rest have "?g s' = ?g s1"
  proof
    assume "s' = s1" then show ?thesis by simp
  next
    assume "\<exists>s2. thread_calculate_load_avg s1 = Inr s2
                  \<and> thread_foreach thread_calculate_recent_cpu s2 = Inr s'"
    then obtain s2 where a: "thread_calculate_load_avg s1 = Inr s2"
      and b: "thread_foreach thread_calculate_recent_cpu s2 = Inr s'" by blast
    from la [OF a] loop [OF b] show ?thesis by simp
  qed
  with g1 have "?g s' = ?g s" by simp
  then show ?thesis by (simp add: fun_eq_iff)
qed

lemma thread_tick_frame:
  assumes "thread_tick freq s = Inr s'"
  shows "ready_list s' = ready_list s \<and> (\<forall>a. priority (threads s' a) = priority (threads s a))"
proof -
  from assms obtain t where t: "thread_current s = Inr t"
    by (auto simp: thread_tick_def split: sum.splits)
  define s1 where "s1 = (if t = idle_thread s then s\<lparr>idle_ticks := wrap64 (idle_ticks s + 1)\<rparr>
                    else s\<lparr>kernel_ticks := wrap64 (kernel_ticks s + 1)\<rparr>)"
  have s1: "ready_list s1 = ready_list s \<and> threads s1 = threads s"
    by (simp add: s1_def)
  from assms t obtain s2 where
    s2: "(if thread_mlfqs s1 then thread_recalculate_bsd_variables freq s1 else Inr s1) = Inr s2"
    and s': "ready_list s' = ready_list s2 \<and> threads s' = threads s2"
    by (auto simp: thread_tick_def s1_def [symmetric] Let_def intr_defs
        split: if_splits sum.splits)
  have "ready_list s2 = ready_list s1
      \<and> (\<forall>a. priority (threads s2 a) = priority (threads s1 a))"
  proof (cases "thread_mlfqs s1")
    case True
    with s2 show ?thesis by (simp add: thread_recalculate_bsd_variables_frame)
  next
    case False
    with s2 show ?thesis by simp
  qed
  with s1 s' show ?thesis by simp
qed

text \<open>
  C3.  The claim asks the tick hook to recompute every priority and re-sort the ready
  queue at each tick count that is a multiple of 4.  \<open>thread_tick\<close> never does
  (\<open>thread_tick_frame\<close>: no priority and no position in the ready queue changes, at any
  tick).  At the fourth tick, with the running thread 1 at priority 31, \<open>recent_cpu\<close> 0
  and \<open>nice\<close> 0: the hook raises \<open>recent_cpu\<close> to 1.0 and leaves the priority at 31,
  where the formula gives 62.
\<close>

theorem thread_tick_keeps_priority:
  "c_mod (timer_ticks mlfqs_state) 4 = 0
   \<and> (\<exists>s'. thread_tick 100 mlfqs_state = Inr s'
         \<and> recent_cpu (threads s' 1) = 16384
         \<and> priority (threads s' 1) = 31 \<and> priority (threads s' 2) = 31
         \<and> ready_list s' = [2]
         \<and> (\<exists>s''. thread_calculate_bsd_priority 1 s' = Inr s''
                \<and> priority (threads s'' 1) = 62))"
  by (simp add: mlfqs_state_def example_defs thread_tick_def thread_current_def
      thread_recalculate_bsd_variables_def thread_calculate_bsd_priority_def
      upd_thread_def Let_def intr_defs TIME_SLICE_def add_fixed_to_int_def
      convert_to_fixed_point_def div_fixed_by_int_def fixed_subtract_fixed_def
      convert_to_int_round_down_def F_value wrap32_def wrap64_def c_div_def c_mod_def
      PRI_MIN_def PRI_MAX_def)

section \<open>The donation walk\<close>

lemma reset_keeps_wait:
  assumes "waits_on_free_lock t s"
  shows "\<exists>s1. thread_reset_priority t s = Inr s1 \<and> waits_on_free_lock t s1"
  using assms
  by (auto simp: waits_on_free_lock_def thread_reset_priority_def
      thread_get_donated_priority_def thread_reinsert_ready_list_def
      intr_defs upd_thread_def is_thread_def Let_def split: list.splits)

lemma remove_keeps_wait:
  assumes "waits_on_free_lock t s"
  shows "\<exists>s2. thread_remove_donation t s = Inr s2 \<and> waits_on_free_lock t s2"
  using assms
  by (auto simp: waits_on_free_lock_def thread_remove_donation_def
      upd_thread_def is_thread_def Let_def)

lemma donate_loop_spins:
  assumes "waits_on_free_lock t s"
  shows "donate_loop t s = None"
proof -
  have "\<not> waits_on_free_lock t' s'" if "donate_loop t' s' = Some y" for t' s' y
  proof (rule donate_loop.raw_induct
      [where P = "\<lambda>t s y. \<not> waits_on_free_lock t s", OF _ that], goal_cases)
    case (1 f t s y)
    note IH = "1"(1) and body = "1"(2)
    show ?case
    proof
      assume w: "waits_on_free_lock t s"
      from reset_keeps_wait [OF w] obtain s1
        where r: "thread_reset_priority t s = Inr s1" and w1: "waits_on_free_lock t s1"
        by blast
      from remove_keeps_wait [OF w1] obtain s2
        where rm: "thread_remove_donation t s1 = Inr s2" and w2: "waits_on_free_lock t s2"
        by blast
      define s3 where "s3 = (if running_thread s1 \<noteq> t then s2 else s1)"
      have w3: "waits_on_free_lock t s3"
        using w1 w2 by (simp add: s3_def)
      have l: "required_lock (threads s t) \<noteq> NULL"
        using w by (simp add: waits_on_free_lock_def)
      have h: "lock_holder s1 (required_lock (threads s1 t)) = NULL"
        and c: "thread_current s1 = Inr (running_thread s1)"
        and n: "t \<noteq> NULL"
        using w1 by (simp_all add: waits_on_free_lock_def thread_current_def is_thread_def)
      from body l r h c n rm have "f t s3 = Some y"
        by (simp add: Let_def s3_def split: if_splits)
      from IH [OF this] w3 show False by simp
    qed
  qed
  then show ?thesis
    using assms by (cases "donate_loop t s") auto
qed


lemma thread_reset_priority_frame:
  assumes "thread_reset_priority t s = Inr s1"
  shows "intr_level s1 = intr_level s \<and> lock_holder s1 = lock_holder s
         \<and> running_thread s1 = running_thread s
         \<and> (\<forall>a. magic (threads s1 a) = magic (threads s a)
                \<and> status (threads s1 a) = status (threads s a)
                \<and> required_lock (threads s1 a) = required_lock (threads s a))"
  using assms
  by (auto simp: thread_reset_priority_def thread_get_donated_priority_def
      thread_reinsert_ready_list_def intr_defs upd_thread_def Let_def
      split: if_splits list.splits)

lemma thread_reset_priority_returns:
  assumes "is_thread s t"
  shows "\<exists>s1. thread_reset_priority t s = Inr s1"
  using assms
  by (auto simp: thread_reset_priority_def thread_get_donated_priority_def
      thread_reinsert_ready_list_def intr_defs upd_thread_def is_thread_def Let_def
      split: list.splits)

lemma donate_loop_chain_spins:
  assumes off: "intr_level s = INTR_OFF"
    and live: "is_thread s t"
    and run: "running_thread s = t" "status (threads s t) = THREAD_RUNNING"
    and lock: "required_lock (threads s t) \<noteq> NULL"
    and holder: "lock_holder s (required_lock (threads s t)) = h" "h \<noteq> t" "is_thread s h"
    and lock2: "required_lock (threads s h) \<noteq> NULL"
    and free: "lock_holder s (required_lock (threads s h)) = NULL"
  shows "donate_loop t s = None"
proof -
  from thread_reset_priority_returns [OF live] obtain s1
    where r: "thread_reset_priority t s = Inr s1" ..
  note fr = thread_reset_priority_frame [OF r]
  define s4 where "s4 = upd_thread t (\<lambda>th. th\<lparr>dona_elem_next_null := False\<rparr>)
      (upd_thread h (\<lambda>th. th\<lparr>donations :=
           list_insert_ordered (thread_compare_donation s1) t (donations th)\<rparr>) s1)"
  have c: "thread_current s1 = Inr t"
    using fr live run by (simp add: thread_current_def is_thread_def)
  have h1: "lock_holder s1 (required_lock (threads s1 t)) = h" "h \<noteq> NULL" "is_thread s1 h"
    using fr holder by (simp_all add: is_thread_def)
  have "donate_loop t s = donate_loop h s4"
    using lock r c h1 holder(2)
    by (subst donate_loop.simps) (simp add: Let_def s4_def)
  moreover have "waits_on_free_lock h s4"
    using fr off live run holder lock2 free
    by (simp add: waits_on_free_lock_def s4_def upd_thread_def is_thread_def)
  ultimately show ?thesis
    by (simp add: donate_loop_spins)
qed

text \<open>
  The walk returns (with a state or with a failed assertion) whenever the chain of
  holders from \<open>t\<close> ends and every required lock in it has a holder.
\<close>

lemma walk_ends_same_locks:
  "same_locks s s' \<Longrightarrow> walk_ends n s' t = walk_ends n s t"
  by (induction n arbitrary: t) (simp_all add: same_locks_def)

lemma same_locks_trans:
  "same_locks s s1 \<Longrightarrow> same_locks s1 s2 \<Longrightarrow> same_locks s s2"
  by (simp add: same_locks_def)

lemma thread_reset_priority_locks:
  "thread_reset_priority t s = Inr s1 \<Longrightarrow> same_locks s s1"
  using thread_reset_priority_frame [of t s s1] by (simp add: same_locks_def)

lemma thread_remove_donation_locks:
  "thread_remove_donation t s = Inr s1 \<Longrightarrow> same_locks s s1"
  by (auto simp: thread_remove_donation_def same_locks_def upd_thread_def Let_def
      split: if_splits)

lemma donate_loop_returns:
  "walk_ends n s t \<Longrightarrow> \<exists>r. donate_loop t s = Some r"
proof (induction n arbitrary: s t)
  case 0
  then show ?case by (subst donate_loop.simps) simp
next
  case (Suc n)
  show ?case
  proof (cases "required_lock (threads s t) = NULL")
    case True
    then show ?thesis by (subst donate_loop.simps) simp
  next
    case False
    define h where "h = lock_holder s (required_lock (threads s t))"
    from Suc.prems False have hn: "h \<noteq> NULL" and w: "walk_ends n s h"
      by (simp_all add: h_def)
    have next_step: "\<exists>r. donate_loop h s4 = Some r" if "same_locks s s4" for s4
      using Suc.IH [of s4 h] w walk_ends_same_locks [OF that] by simp
    show ?thesis
    proof (cases "thread_reset_priority t s")
      case (Inl e)
      with False show ?thesis by (subst donate_loop.simps) simp
    next
      case (Inr s1)
      note l1 = thread_reset_priority_locks [OF Inr]
      then have h1: "lock_holder s1 (required_lock (threads s1 t)) = h"
        by (simp add: same_locks_def h_def)
      show ?thesis
      proof (cases "thread_current s1")
        case (Inl e)
        with False Inr h1 show ?thesis by (subst donate_loop.simps) (simp add: Let_def)
      next
        case cur: (Inr cur)
        show ?thesis
        proof (cases "if cur \<noteq> t then thread_remove_donation t s1 else Inr s1")
          case (Inl e)
          with False Inr h1 cur show ?thesis
            by (subst donate_loop.simps) (simp add: Let_def)
        next
          case s2: (Inr s2)
          have l2: "same_locks s s2"
          proof (cases "cur \<noteq> t")
            case True
            with s2 have "thread_remove_donation t s1 = Inr s2" by simp
            from same_locks_trans [OF l1 thread_remove_donation_locks [OF this]]
            show ?thesis .
          next
            case False
            with s2 l1 show ?thesis by simp
          qed
          define s4 where "s4 = upd_thread t (\<lambda>th. th\<lparr>dona_elem_next_null := False\<rparr>)
              (upd_thread h (\<lambda>th. th\<lparr>donations :=
                 list_insert_ordered (thread_compare_donation s2) t (donations th)\<rparr>) s2)"
          have "same_locks s s4"
            using l2 by (simp add: same_locks_def s4_def upd_thread_def)
          from next_step [OF this] obtain r where r: "donate_loop h s4 = Some r" ..
          from False Inr h1 cur s2 hn r show ?thesis
            by (subst donate_loop.simps) (simp add: Let_def s4_def)
        qed
      qed
    qed
  qed
qed

lemma thread_donate_priority_returns:
  "walk_ends n s t \<Longrightarrow> \<exists>r. thread_donate_priority t s = Some r"
  using donate_loop_returns [of n s t] by (simp add: thread_donate_priority_def)

text \<open>
  C2.  The claim says the walk terminates also when a required lock in the chain has a
  null holder.  It does where every required lock has a holder
  (\<open>thread_donate_priority_returns\<close>), and it does not otherwise: for a null holder
  the loop body leaves \<open>t\<close> where it is, \<open>t->required_lock\<close> is still non-null, and the
  loop runs again, for ever (\<open>donate_loop_spins\<close>).  On \<open>free_lock_state\<close> neither the walk from thread 2, whose
  own required lock is free, nor the walk from thread 1, which reaches thread 2 after
  one step, returns.
\<close>

theorem thread_donate_priority_null_holder:
  "thread_donate_priority 2 free_lock_state = None
   \<and> thread_donate_priority 1 free_lock_state = None"
proof
  have "waits_on_free_lock 2 free_lock_state"
    by (simp add: waits_on_free_lock_def free_lock_state_def example_defs)
  then show "thread_donate_priority 2 free_lock_state = None"
    by (simp add: thread_donate_priority_def donate_loop_spins waits_on_free_lock_def)
  have "donate_loop 1 free_lock_state = None"
    by (rule donate_loop_chain_spins [where h = 2])
      (simp_all add: free_lock_state_def example_defs)
  then show "thread_donate_priority 1 free_lock_state = None"
    by (simp add: thread_donate_priority_def free_lock_state_def example_defs)
qed

section \<open>Thread creation and thread ids\<close>

lemma upd_thread_fields [simp]:
  "intr_level (upd_thread t f s) = intr_level s"
  "next_tid (upd_thread t f s) = next_tid s"
  "ready_list (upd_thread t f s) = ready_list s"
  "all_list (upd_thread t f s) = all_list s"
  "running_thread (upd_thread t f s) = running_thread s"
  by (simp_all add: upd_thread_def)

lemma tids_eq_iff:
  "tids s' = tids s \<longleftrightarrow>
     next_tid s' = next_tid s \<and> (\<forall>a. tid (threads s' a) = tid (threads s a))"
  by (auto simp: tids_def fun_eq_iff)

lemma thread_schedule_tail_tids:
  "thread_schedule_tail prev s = Inr s' \<Longrightarrow> tids s' = tids s"
  by (auto simp: thread_schedule_tail_def tids_eq_iff Let_def upd_thread_def
      palloc_free_page_def split: if_splits)

lemma foreach_bsd_tids:
  assumes "thread_foreach thread_calculate_bsd_priority s = Inr s'"
  shows "tids s' = tids s"
proof -
  from assms have l: "foreach_loop thread_calculate_bsd_priority (all_list s) s = Inr s'"
    by (simp add: thread_foreach_def split: if_splits)
  show ?thesis
  proof (rule foreach_loop_preserves [where g = tids, OF _ l])
    fix t s s' assume "thread_calculate_bsd_priority t s = Inr s'"
    from thread_calculate_bsd_priority_frame [OF this]
    show "tids s' = tids s" by (auto simp: tids_eq_iff upd_thread_def)
  qed
qed

lemma schedule_tids:
  assumes "schedule s = Inr s'"
  shows "tids s' = tids s"
proof -
  obtain nxt s1 where n: "next_thread_to_run s = (nxt, s1)" by (cases "next_thread_to_run s")
  then have t1: "tids s1 = tids s"
    by (auto simp: next_thread_to_run_def tids_eq_iff split: list.splits)
  from assms n obtain s3 where
    m: "(if thread_mlfqs s1
         then case thread_foreach thread_calculate_bsd_priority s1 of
                Inl e \<Rightarrow> Inl e
              | Inr s2 \<Rightarrow> Inr (s2\<lparr>ready_list :=
                         list_sort (thread_compare_priority s2) (ready_list s2)\<rparr>)
         else Inr s1) = Inr s3"
    by (auto simp: schedule_def Let_def split: if_splits sum.splits)
  have t3: "tids s3 = tids s1"
  proof (cases "thread_mlfqs s1")
    case True
    with m obtain s2 where f: "thread_foreach thread_calculate_bsd_priority s1 = Inr s2"
      and e: "s3 = s2\<lparr>ready_list := list_sort (thread_compare_priority s2) (ready_list s2)\<rparr>"
      by (auto split: sum.splits)
    from foreach_bsd_tids [OF f] e show ?thesis by (simp add: tids_eq_iff)
  next
    case False
    with m show ?thesis by simp
  qed
  define prev where "prev = (if running_thread s \<noteq> nxt then running_thread s else NULL)"
  define s4 where "s4 = (if running_thread s \<noteq> nxt then s3\<lparr>running_thread := nxt\<rparr> else s3)"
  have t4: "tids s4 = tids s3"
    by (simp add: s4_def tids_eq_iff)
  from assms have tl: "thread_schedule_tail prev s4 = Inr s'"
    unfolding schedule_def Let_def n prod.case m
    by (simp add: prev_def s4_def switch_threads_def split: if_splits)
  from thread_schedule_tail_tids [OF tl] t4 t3 t1 show ?thesis by simp
qed

lemma thread_yield_tids:
  assumes "thread_yield s = Inr s'"
  shows "tids s' = tids s"
proof -
  from assms obtain cur where c: "thread_current s = Inr cur"
    by (auto simp: thread_yield_def split: sum.splits)
  define s3 where "s3 = upd_thread cur (\<lambda>th. th\<lparr>status := THREAD_READY\<rparr>)
      (if cur \<noteq> idle_thread s
       then s\<lparr>intr_level := INTR_OFF,
              ready_list := list_insert_ordered
                 (thread_compare_priority (s\<lparr>intr_level := INTR_OFF\<rparr>)) cur (ready_list s)\<rparr>
       else s\<lparr>intr_level := INTR_OFF\<rparr>)"
  have t3: "tids s3 = tids s"
    by (simp add: s3_def tids_eq_iff upd_thread_def)
  from assms c obtain s4 where sch: "schedule s3 = Inr s4"
    and fin: "s' = (if running_thread s4 = cur then intr_set_level (intr_level s) s4 else s4)"
    by (auto simp: thread_yield_def s3_def intr_defs Let_def split: if_splits sum.splits)
  from schedule_tids [OF sch] t3 fin show ?thesis
    by (simp add: tids_eq_iff intr_defs)
qed

lemma thread_max_yield_tids:
  assumes "thread_max_yield s = Inr s'"
  shows "tids s' = tids s"
  using assms
  by (auto simp: thread_max_yield_def intr_defs tids_eq_iff split: sum.splits if_splits
      dest!: thread_yield_tids)

lemma thread_unblock_tids:
  assumes "thread_unblock t s = Inr s'"
  shows "tids s' = tids s"
  using assms
  by (auto simp: thread_unblock_def intr_defs tids_eq_iff upd_thread_def Let_def
      split: if_splits)

lemma alloc_frame_tids:
  assumes "alloc_frame t fr s = Inr s'"
  shows "tids s' = tids s \<and> intr_level s' = intr_level s"
  using assms
  by (auto simp: alloc_frame_def tids_eq_iff upd_thread_def split: if_splits)

lemma init_thread_next_tid:
  assumes "init_thread t nm prio s = Inr s'"
  shows "next_tid s' = next_tid s"
  using assms
  by (auto simp: init_thread_def intr_defs upd_thread_def Let_def split: if_splits option.splits)

lemma thread_create_success:
  assumes ok: "thread_create page nm prio function aux s = Inr (r, s')"
    and page: "page \<noteq> NULL"
  shows "r = next_tid s \<and> tid (threads s' page) = r \<and> next_tid s' = wrap32 (r + 1)"
proof -
  from ok page obtain s1 where i: "init_thread page nm prio s = Inr s1"
    by (auto simp: thread_create_def Let_def split: if_splits sum.splits)
  define s4 where "s4 = (upd_thread page (\<lambda>th. th\<lparr>tid := next_tid s1\<rparr>)
                           (s1\<lparr>next_tid := wrap32 (next_tid s1 + 1)\<rparr>))\<lparr>intr_level := INTR_OFF\<rparr>"
  have t4: "tids s4 = (wrap32 (next_tid s1 + 1),
                       (\<lambda>a. tid (threads s1 a))(page := next_tid s1))"
    by (auto simp: s4_def tids_def upd_thread_def)
  from ok page i obtain s5 s6 s7 s9 where
    a1: "alloc_frame page (Kernel_thread_frame NULL function aux) s4 = Inr s5"
    and a2: "alloc_frame page Switch_entry_frame s5 = Inr s6"
    and a3: "alloc_frame page (Switch_threads_frame 0) s6 = Inr s7"
    and u: "thread_unblock page (intr_set_level (intr_level s1) s7) = Inr s9"
    and y: "thread_max_yield s9 = Inr s'"
    and r: "r = next_tid s1"
    by (auto simp: thread_create_def allocate_tid_def intr_defs s4_def Let_def
        split: if_splits sum.splits)
  have "tids (intr_set_level (intr_level s1) s7) = tids s7"
    by (simp add: tids_eq_iff intr_defs)
  with alloc_frame_tids [OF a1] alloc_frame_tids [OF a2] alloc_frame_tids [OF a3]
    thread_unblock_tids [OF u] thread_max_yield_tids [OF y] t4
  have "tids s' = (wrap32 (next_tid s1 + 1), (\<lambda>a. tid (threads s1 a))(page := next_tid s1))"
    by simp
  then have "next_tid s' = wrap32 (next_tid s1 + 1)" and "tid (threads s' page) = next_tid s1"
    by (auto simp: tids_def fun_eq_iff split: if_splits)
  with r init_thread_next_tid [OF i] show ?thesis by simp
qed


lemma thread_create_boot:
  "\<exists>s'. thread_create 2 (Some ''worker'') 20 5 0 boot_state = Inr (3, s')
         \<and> running_thread s' = 1 \<and> ready_list s' = [2] \<and> all_list s' = [1, 2]"
  by (simp add: boot_state_def example_defs thread_create_def init_thread_def
      allocate_tid_def alloc_frame_def thread_unblock_def thread_max_yield_def
      thread_get_priority_def thread_current_def thread_get_max_priority_def
      upd_thread_def intr_defs Let_def
      PRI_MIN_def PRI_MAX_def wrap32_def)

lemma thread_init_ids:
  assumes "thread_init s = Inr s'" and "next_tid s = 1"
  shows "next_tid s' = 2 \<and> tid (threads s' (running_thread s)) = 1"
proof -
  define s3 where "s3 = s\<lparr>ready_list := [], all_list := [], load_avg := 0,
                           initial_thread := running_thread s\<rparr>"
  from assms(1) obtain s4 where i: "init_thread (running_thread s) (Some ''main'') PRI_DEFAULT s3 = Inr s4"
    by (auto simp: thread_init_def s3_def Let_def split: if_splits sum.splits)
  from init_thread_next_tid [OF i] assms(2) have n4: "next_tid s4 = 1"
    by (simp add: s3_def)
  have it: "initial_thread s4 = running_thread s"
    using i by (auto simp: init_thread_def s3_def intr_defs upd_thread_def Let_def
        split: if_splits)
  from assms(1) i have "s' = upd_thread (initial_thread s4) (\<lambda>th. th\<lparr>tid := next_tid s4\<rparr>)
       ((upd_thread (initial_thread s4) (\<lambda>th. th\<lparr>status := THREAD_RUNNING\<rparr>) s4)
          \<lparr>next_tid := wrap32 (next_tid s4 + 1)\<rparr>)"
    by (auto simp: thread_init_def s3_def allocate_tid_def upd_thread_def Let_def
        split: if_splits)
  with n4 it show ?thesis
    by (simp add: upd_thread_def wrap32_def)
qed

text \<open>
  C8 (as amended).  \<open>thread_create\<close> (called with a non-null \<open>function\<close>, as its
  assertion demands) returns \<open>TID_ERROR\<close> when the page allocation fails, and then the
  state, \<open>all_list\<close> and \<open>ready_list\<close> included, is unchanged.  On success it returns the
  new thread's id: the value of the 32-bit id counter \<open>next_tid\<close>, which is stored in the
  new thread, and the counter moves on by one, wrapping around.  While the counter is
  positive (it starts at 1, \<open>thread_init\<close> takes it to 2, and it stays positive until it
  passes \<open>2^31 - 1\<close>) the id is positive and is not \<open>TID_ERROR\<close>, so \<open>TID_ERROR\<close> is
  returned exactly when the allocation fails; while it is below \<open>2^31 - 1\<close> the next id
  is one larger and positive again.  The code does not check the counter.
\<close>

theorem thread_create_result:
  assumes fn: "function \<noteq> NULL"
  shows "(page = NULL \<longrightarrow> thread_create page nm prio function aux s = Inr (TID_ERROR, s))
       \<and> (\<forall>r s'. page \<noteq> NULL \<and> thread_create page nm prio function aux s = Inr (r, s')
             \<longrightarrow> r = next_tid s \<and> tid (threads s' page) = r
               \<and> next_tid s' = wrap32 (r + 1)
               \<and> (0 < next_tid s \<longrightarrow>
                     0 < r \<and> r \<noteq> TID_ERROR
                   \<and> (next_tid s < 2147483647 \<longrightarrow>
                         next_tid s' = r + 1 \<and> 0 < next_tid s')))"
proof (intro conjI allI impI)
  assume "page = NULL"
  with fn show "thread_create page nm prio function aux s = Inr (TID_ERROR, s)"
    by (simp add: thread_create_def)
next
  fix r s'
  assume a: "page \<noteq> NULL \<and> thread_create page nm prio function aux s = Inr (r, s')"
  then have ok: "thread_create page nm prio function aux s = Inr (r, s')"
    and page: "page \<noteq> NULL" by simp_all
  note su = thread_create_success [OF ok page]
  from su show "r = next_tid s" and "tid (threads s' page) = r"
    and "next_tid s' = wrap32 (r + 1)" by simp_all
  assume pos: "0 < next_tid s"
  with su show "0 < r" and "r \<noteq> TID_ERROR" by (simp_all add: TID_ERROR_def)
  assume "next_tid s < 2147483647"
  with su pos show "next_tid s' = r + 1" and "0 < next_tid s'"
    by (simp_all add: wrap32_id)
qed

theorem thread_create_result_witness:
  "(5::nat) \<noteq> NULL \<and> 0 < next_tid boot_state
   \<and> thread_create NULL (Some ''worker'') 20 5 0 boot_state = Inr (TID_ERROR, boot_state)
   \<and> (\<exists>s'. thread_create 2 (Some ''worker'') 20 5 0 boot_state = Inr (3, s')
         \<and> tid (threads s' 2) = 3 \<and> next_tid s' = 4)"
proof -
  have fn: "(5::nat) \<noteq> NULL" by (simp add: NULL_def)
  have pos: "0 < next_tid boot_state" and lt: "next_tid boot_state < 2147483647"
    by (simp_all add: boot_state_def example_kernel_def)
  from thread_create_boot obtain s'
    where ok: "thread_create 2 (Some ''worker'') 20 5 0 boot_state = Inr (3, s')" by blast
  have p2: "(2::nat) \<noteq> NULL" by (simp add: NULL_def)
  from thread_create_result [OF fn, of 2 "Some ''worker''" 20 0 boot_state]
  have "\<forall>r s'. 2 \<noteq> NULL \<and> thread_create 2 (Some ''worker'') 20 5 0 boot_state = Inr (r, s')
          \<longrightarrow> tid (threads s' 2) = r
            \<and> (0 < next_tid boot_state \<longrightarrow> next_tid boot_state < 2147483647
                  \<longrightarrow> next_tid s' = r + 1)"
    by blast
  with ok p2 pos lt have "tid (threads s' 2) = 3 \<and> next_tid s' = 3 + 1"
    by blast
  then have new: "tid (threads s' 2) = 3 \<and> next_tid s' = 4" by simp
  from thread_create_result [OF fn, of NULL "Some ''worker''" 20 0 boot_state]
  have fail: "thread_create NULL (Some ''worker'') 20 5 0 boot_state = Inr (TID_ERROR, boot_state)"
    by blast
  from fn pos fail ok new show ?thesis by blast
qed

text \<open>
  C8 as stated fails once the counter has wrapped: with \<open>next_tid = -1\<close> a creation on
  a fresh page succeeds (the new thread is in \<open>all_list\<close> and in the ready queue) and
  returns \<open>TID_ERROR\<close>, an id that is not positive.
\<close>

theorem thread_create_result_counterexample:
  "(2::nat) \<noteq> NULL
   \<and> (case thread_create 2 (Some ''worker'') 20 5 0 wrapped_state of
        Inl e \<Rightarrow> False
      | Inr (r, s') \<Rightarrow> r = TID_ERROR \<and> all_list s' = [1, 2] \<and> ready_list s' = [2]
                        \<and> status (threads s' 2) = THREAD_READY)"
  by (simp add: wrapped_state_def boot_state_def example_defs thread_create_def
      init_thread_def allocate_tid_def alloc_frame_def thread_unblock_def
      thread_max_yield_def thread_get_priority_def thread_current_def
      thread_get_max_priority_def upd_thread_def intr_defs Let_def
      PRI_MIN_def PRI_MAX_def wrap32_def TID_ERROR_def)

section \<open>Round trip through fixed point\<close>

text \<open>
  C7 (as amended).  For every integer \<open>n\<close> strictly between \<open>-2^17\<close> and \<open>2^17\<close>,
  converting \<open>n\<close> to 17.14 fixed point and back with round-to-nearest yields \<open>n\<close>, in
  the 32-bit arithmetic of the macros.
\<close>

theorem fixed_point_round_trip:
  assumes "- 131072 < n" and "n < 131072"
  shows "convert_to_int_round_nearest (convert_to_fixed_point n) = n"
proof -
  have fp: "convert_to_fixed_point n = n * 16384"
    using assms by (simp add: convert_to_fixed_point_def F_value wrap32_id)
  show ?thesis
  proof (cases "0 \<le> n")
    case True
    have "wrap32 (n * 16384 + 8192) = n * 16384 + 8192"
      using assms True by (intro wrap32_id) simp_all
    moreover have "(n * 16384 + 8192) div 16384 = n"
      by simp
    ultimately show ?thesis
      using True by (simp add: convert_to_int_round_nearest_def fp half_F F_value c_div_nonneg)
  next
    case False
    then have neg: "n * 16384 < 0" by simp
    have w: "wrap32 (n * 16384 - 8192) = n * 16384 - 8192"
      using assms False by (intro wrap32_id) simp_all
    have "(- (n * 16384 - 8192)) div 16384 = - n"
    proof -
      have "- (n * 16384 - 8192) = (- n) * 16384 + 8192" by simp
      then show ?thesis by simp
    qed
    then have "c_div (n * 16384 - 8192) 16384 = n"
      using neg by (simp add: c_div_neg)
    then show ?thesis
      using neg by (simp add: convert_to_int_round_nearest_def fp half_F F_value w)
  qed
qed

theorem fixed_point_round_trip_witness:
  "- 131072 < (- 131071 :: int) \<and> (- 131071 :: int) < 131072
   \<and> convert_to_int_round_nearest (convert_to_fixed_point (- 131071)) = - 131071"
  using fixed_point_round_trip [of "- 131071"] by simp

text \<open>
  C7 as stated fails at both ends of the interval: \<open>2^17 * F\<close> is \<open>2^31\<close>, one more than
  the largest 32-bit value, and \<open>-2^17 * F - F/2\<close> is below the smallest.
\<close>

theorem fixed_point_round_trip_counterexample:
  "convert_to_int_round_nearest (convert_to_fixed_point 131072) = 131071
   \<and> convert_to_int_round_nearest (convert_to_fixed_point (- 131072)) = 131071"
  by (simp add: convert_to_int_round_nearest_def convert_to_fixed_point_def F_def Q_def
      wrap32_def c_div_def)

end
